theory Spec2Isabelle
  imports Main "HOL-Library.Multiset"
begin

section \<open>The warehouse router of rudder-server (warehouse/warehouse.go)\<close>

text \<open>
  A shallow embedding of the scheduling layer of \<^verbatim>\<open>warehouse/warehouse.go\<close>:
  the metadata tables as lists of rows, the package-level maps as HOL maps, pointers to
  uploads as addresses into an explicit store, panics and blocked sends as values, and
  the calls a function makes as a log that is threaded through the state.
\<close>

subsection \<open>Ways in which a goroutine stops without returning\<close>

datatype stop =
    TypeAssertionPanic      \<comment> \<open>\<^verbatim>\<open>x.(T)\<close> on a value that is not a \<^verbatim>\<open>T\<close>\<close>
  | IndexOutOfRangePanic    \<comment> \<open>\<^verbatim>\<open>xs[i]\<close> with \<^verbatim>\<open>i\<close> outside the slice\<close>
  | SliceBoundsPanic        \<comment> \<open>\<^verbatim>\<open>xs[i:j]\<close> with bounds out of range\<close>
  | SqlErrorPanic           \<comment> \<open>\<^verbatim>\<open>panic(err)\<close> after a failed statement\<close>
  | ManagerErrorPanic       \<comment> \<open>\<^verbatim>\<open>panic(err)\<close> after \<^verbatim>\<open>manager.New\<close> failed\<close>
  | BlockedOnChannel        \<comment> \<open>a send on a nil or full channel\<close>
  | WaitsForWorkerSlot      \<comment> \<open>the admission loop sleeps and retries\<close>
  | NilDereferencePanic     \<comment> \<open>a read through a pointer that points at nothing\<close>

subsection \<open>Backend configuration\<close>

text \<open>
  A value of Go's \<^verbatim>\<open>interface{}\<close> as the JSON decoder produces it for a destination
  config. \<^verbatim>\<open>INil\<close> is the nil interface; a map is read by key, a missing key reads
  as nil.
\<close>

datatype iface =
    INil
  | IString string
  | IBool bool
  | INumber int
  | IMap "string \<Rightarrow> iface option"

record SourceT =
  src_ID :: string
  src_Name :: string

record DestinationT =
  dst_ID :: string
  dst_Enabled :: bool
  dst_Config :: "string \<Rightarrow> iface option"
  dst_DefinitionName :: string

record WarehouseT =
  Source :: SourceT
  Destination :: DestinationT
  Namespace :: string
  Type :: string

text \<open>
  The helpers of \<^verbatim>\<open>warehouseutils\<close> and \<^verbatim>\<open>strings\<close> that \<^verbatim>\<open>getNamespace\<close>
  calls are declared outside this file; they are parameters of the model.
\<close>

record namespaceHelpers =
  ToProviderCase :: "string \<Rightarrow> string \<Rightarrow> string"
  ToSafeNamespace :: "string \<Rightarrow> string \<Rightarrow> string"
  GetNamespace :: "SourceT \<Rightarrow> DestinationT \<Rightarrow> string \<times> bool"
  TrimSpace :: "string \<Rightarrow> string"

definition namespaceFallback ::
  "namespaceHelpers \<Rightarrow> SourceT \<Rightarrow> DestinationT \<Rightarrow> string \<Rightarrow> string" where
  "namespaceFallback h source destination destType =
     (case GetNamespace h source destination of
        (namespace, exists) \<Rightarrow>
          if \<not> exists
          then ToProviderCase h destType (ToSafeNamespace h destType (src_Name source))
          else namespace)"

definition getNamespace ::
  "namespaceHelpers \<Rightarrow> iface \<Rightarrow> SourceT \<Rightarrow> DestinationT \<Rightarrow> string \<Rightarrow> stop + string" where
  "getNamespace h config source destination destType =
     (case config of
        IMap configMap \<Rightarrow>
          if destType = ''CLICKHOUSE'' then
            (case configMap ''database'' of
               Some (IString database) \<Rightarrow> Inr database
             | _ \<Rightarrow> Inl TypeAssertionPanic)
          else
            (case configMap ''namespace'' of
               None \<Rightarrow> Inr (namespaceFallback h source destination destType)
             | Some INil \<Rightarrow> Inr (namespaceFallback h source destination destType)
             | Some (IString namespace) \<Rightarrow>
                 if length (TrimSpace h namespace) > 0
                 then Inr (ToProviderCase h destType (ToSafeNamespace h destType namespace))
                 else Inr (namespaceFallback h source destination destType)
             | Some _ \<Rightarrow> Inl TypeAssertionPanic)
      | _ \<Rightarrow> Inl TypeAssertionPanic)"

subsection \<open>Machine integers and time\<close>

text \<open>
  \<^verbatim>\<open>int64\<close> arithmetic wraps around; \<open>int64\<close> is the value an unbounded result has
  after the wrap. Instants are Unix seconds; \<open>zeroTime\<close> is Go's zero \<^verbatim>\<open>time.Time\<close>.
\<close>

definition int64 :: "int \<Rightarrow> int" where
  "int64 x = (x + 2 ^ 63) mod 2 ^ 64 - 2 ^ 63"

definition in_int64 :: "int \<Rightarrow> bool" where
  "in_int64 x = (- (2 ^ 63) \<le> x \<and> x < 2 ^ 63)"

definition zeroTime :: int where
  "zeroTime = - 62135596800"

subsection \<open>\<^verbatim>\<open>strconv.ParseInt(s, 10, 64)\<close>\<close>

datatype numError = ErrSyntax | ErrRange

definition isDigit :: "char \<Rightarrow> bool" where
  "isDigit c = (48 \<le> (of_char c :: nat) \<and> (of_char c :: nat) \<le> 57)"

definition digitVal :: "char \<Rightarrow> nat" where
  "digitVal c = of_char c - 48"

definition maxUint64 :: nat where
  "maxUint64 = 2 ^ 64 - 1"

fun parseUintLoop :: "nat \<Rightarrow> string \<Rightarrow> nat \<times> numError option" where
  "parseUintLoop n [] = (n, None)"
| "parseUintLoop n (c # cs) =
     (if \<not> isDigit c then (0, Some ErrSyntax)
      else if n \<ge> maxUint64 div 10 + 1 then (maxUint64, Some ErrRange)
      else if n * 10 + digitVal c > maxUint64 then (maxUint64, Some ErrRange)
      else parseUintLoop (n * 10 + digitVal c) cs)"

definition ParseUint :: "string \<Rightarrow> nat \<times> numError option" where
  "ParseUint s = (if s = [] then (0, Some ErrSyntax) else parseUintLoop 0 s)"

definition ParseInt :: "string \<Rightarrow> int \<times> numError option" where
  "ParseInt s =
     (if s = [] then (0, Some ErrSyntax)
      else
        let neg = (hd s = CHR ''-'');
            s1 = (if hd s = CHR ''+'' \<or> hd s = CHR ''-'' then tl s else s)
        in case ParseUint s1 of
             (un, err) \<Rightarrow>
               if err = Some ErrSyntax then (0, err)
               else if \<not> neg \<and> un \<ge> 2 ^ 63 then (2 ^ 63 - 1, Some ErrRange)
               else if neg \<and> un > 2 ^ 63 then (- (2 ^ 63), Some ErrRange)
               else (if neg then - int un else int un, None))"

subsection \<open>Metadata tables and the structs read from them\<close>

text \<open>
  The status column holds a string; the five constants this file compares it with are
  declared outside it, so they are constructors here and every other status is
  \<open>OtherState\<close>.
\<close>

datatype UploadState =
    WaitingState
  | ExportingDataState
  | ExportingDataFailedState
  | ExportedDataState
  | AbortedState
  | OtherState string

text \<open>A row of \<^verbatim>\<open>wh_staging_files\<close>, with the columns this file reads.\<close>

record StagingFileRow =
  sfr_id :: int
  sfr_location :: string
  sfr_source_id :: string
  sfr_destination_id :: string
  sfr_first_event_at :: "int option"
  sfr_last_event_at :: "int option"

text \<open>
  A row of \<^verbatim>\<open>wh_uploads\<close>. The \<^verbatim>\<open>error\<close> column maps a state to its attempt
  counter, the \<^verbatim>\<open>timings\<close> column is the ordered array of (state, instant).
\<close>

record UploadRow =
  upr_id :: int
  upr_source_id :: string
  upr_namespace :: string
  upr_destination_id :: string
  upr_destination_type :: string
  upr_start_staging_file_id :: int
  upr_end_staging_file_id :: int
  upr_start_load_file_id :: int
  upr_end_load_file_id :: int
  upr_status :: UploadState
  upr_schema :: string
  upr_error :: "(string \<times> int) list"
  upr_timings :: "(string \<times> int) list"
  upr_first_event_at :: int
  upr_last_event_at :: int
  upr_created_at :: int
  upr_updated_at :: int

record StagingFileT =
  sf_ID :: int
  sf_Location :: string
  sf_FirstEventAt :: int
  sf_LastEventAt :: int

record UploadT =
  up_ID :: int
  up_Namespace :: string
  up_SourceID :: string
  up_DestinationID :: string
  up_DestinationType :: string
  up_StartStagingFileID :: int
  up_EndStagingFileID :: int
  up_StartLoadFileID :: int
  up_EndLoadFileID :: int
  up_Status :: UploadState
  up_Schema :: string
  up_Error :: "(string \<times> int) list"
  up_FirstAttemptAt :: int
  up_LastAttemptAt :: int
  up_Attempts :: int

definition zeroUploadT :: UploadT where
  "zeroUploadT =
     \<lparr>up_ID = 0, up_Namespace = [], up_SourceID = [], up_DestinationID = [],
      up_DestinationType = [], up_StartStagingFileID = 0, up_EndStagingFileID = 0,
      up_StartLoadFileID = 0, up_EndLoadFileID = 0, up_Status = OtherState [],
      up_Schema = [], up_Error = [], up_FirstAttemptAt = zeroTime,
      up_LastAttemptAt = zeroTime, up_Attempts = 0\<rparr>"

text \<open>
  \<^verbatim>\<open>UploadJobT.upload\<close> is a \<^verbatim>\<open>*UploadT\<close>: an address into the store of uploads.
  The manager, database and notifier handles of a job are the router's own and are the
  same in every job.
\<close>

record UploadJobT =
  job_upload :: nat
  job_stagingFiles :: "StagingFileT list"
  job_warehouse :: WarehouseT

subsection \<open>Configuration, environment and state\<close>

text \<open>The values \<^verbatim>\<open>loadConfig\<close> reads, and the list it sets to a constant.\<close>

record config =
  noOfWorkers :: int
  stagingFilesBatchSize :: int
  uploadFreqInS :: int
  minRetryAttempts :: int
  retryTimeWindow :: int

definition crashRecoverWarehouses :: "string list" where
  "crashRecoverWarehouses = [''RS'']"

text \<open>
  What one pass of the main loop gets from outside this file: the clock
  (\<^verbatim>\<open>timeutil.Now().Unix()\<close>), whether \<^verbatim>\<open>manager.New\<close> knows a destination type,
  whether \<^verbatim>\<open>CrashRecover\<close> returns an error, and the sync frequency configured for a
  warehouse.
\<close>

record env =
  now :: int
  managerNew_ok :: "string \<Rightarrow> bool"
  crashRecover_err :: "WarehouseT \<Rightarrow> bool"
  syncFrequency :: "WarehouseT \<Rightarrow> string"

text \<open>The calls that the properties below speak about, logged in the order they are made.\<close>

datatype call =
    CrashRecoverCall WarehouseT
  | GetPendingUploadsCall WarehouseT
  | GetStagingFilesCall WarehouseT int int
  | SetLastExecCall WarehouseT
  | GetPendingStagingFilesCall WarehouseT
  | InitUploadCall WarehouseT int int
  | EnqueueCall WarehouseT nat
  | RunCall UploadJobT bool
  | RecordDeliveryStatusCall string int
  | CountCall string string nat
  | OnSuccessfulUploadCall WarehouseT

text \<open>
  The package-level variables, the fields of the one router \<^verbatim>\<open>wh\<close>, the two tables
  behind \<^verbatim>\<open>dbHandle\<close> (\<open>dbUp\<close> false: every statement fails), the store of
  \<^verbatim>\<open>UploadT\<close> values that jobs point into, and the log of calls.
\<close>

record world =
  dbUp :: bool
  wh_staging_files :: "StagingFileRow list"
  wh_uploads :: "UploadRow list"
  wh_uploads_id_seq :: int
  destType :: string
  isEnabled :: bool
  warehouses :: "WarehouseT list"
  workerChannelMap :: "string \<Rightarrow> UploadJobT list list option"
  inProgressMap :: "string \<Rightarrow> bool option"
  inRecoveryMap :: "string \<Rightarrow> bool option"
  lastExecMap :: "string \<Rightarrow> int option"
  activeWorkerCount :: int
  store :: "UploadT list"
  calls :: "call list"

definition logCall :: "call \<Rightarrow> world \<Rightarrow> world" where
  "logCall c s = s\<lparr>calls := calls s @ [c]\<rparr>"

subsection \<open>Reading the tables\<close>

definition ofPair :: "WarehouseT \<Rightarrow> StagingFileRow \<Rightarrow> bool" where
  "ofPair w r = (sfr_source_id r = src_ID (Source w)
                 \<and> sfr_destination_id r = dst_ID (Destination w))"

text \<open>The rows that the statement of \<^verbatim>\<open>getStagingFiles\<close> selects, as they are scanned.\<close>

definition selectStagingFiles ::
  "WarehouseT \<Rightarrow> int \<Rightarrow> int \<Rightarrow> StagingFileRow list \<Rightarrow> StagingFileT list" where
  "selectStagingFiles w startID endID table =
     map (\<lambda>r. \<lparr>sf_ID = sfr_id r, sf_Location = sfr_location r,
                sf_FirstEventAt = zeroTime, sf_LastEventAt = zeroTime\<rparr>)
       (sort_key sfr_id
          (filter (\<lambda>r. sfr_id r \<ge> startID \<and> sfr_id r \<le> endID \<and> ofPair w r) table))"

definition getStagingFiles ::
  "WarehouseT \<Rightarrow> int \<Rightarrow> int \<Rightarrow> world \<Rightarrow> stop + (StagingFileT list \<times> world)" where
  "getStagingFiles w startID endID s =
     (if \<not> dbUp s then Inl SqlErrorPanic
      else Inr (selectStagingFiles w startID endID (wh_staging_files s),
                logCall (GetStagingFilesCall w startID endID) s))"

text \<open>
  The first statement of \<^verbatim>\<open>getPendingStagingFiles\<close> orders the terminal uploads of the
  pair by upload id, descending, and \<^verbatim>\<open>QueryRow\<close> scans the first row; with no row the
  variable keeps its zero value.
\<close>

definition terminalUploads :: "WarehouseT \<Rightarrow> world \<Rightarrow> UploadRow list" where
  "terminalUploads w s =
     filter (\<lambda>u. upr_destination_type u = Type w
                 \<and> upr_source_id u = src_ID (Source w)
                 \<and> upr_destination_id u = dst_ID (Destination w)
                 \<and> (upr_status u = ExportedDataState \<or> upr_status u = AbortedState))
       (wh_uploads s)"

definition lastStagingFileID :: "WarehouseT \<Rightarrow> world \<Rightarrow> int" where
  "lastStagingFileID w s =
     (case rev (sort_key upr_id (terminalUploads w s)) of
        [] \<Rightarrow> 0
      | u # _ \<Rightarrow> upr_end_staging_file_id u)"

definition scanStagingFile :: "StagingFileRow \<Rightarrow> StagingFileT" where
  "scanStagingFile r =
     \<lparr>sf_ID = sfr_id r, sf_Location = sfr_location r,
      sf_FirstEventAt = (case sfr_first_event_at r of None \<Rightarrow> zeroTime | Some t \<Rightarrow> t),
      sf_LastEventAt = (case sfr_last_event_at r of None \<Rightarrow> zeroTime | Some t \<Rightarrow> t)\<rparr>"

definition selectPendingStagingFiles :: "WarehouseT \<Rightarrow> world \<Rightarrow> StagingFileT list" where
  "selectPendingStagingFiles w s =
     map scanStagingFile
       (sort_key sfr_id
          (filter (\<lambda>r. sfr_id r > lastStagingFileID w s \<and> ofPair w r) (wh_staging_files s)))"

definition getPendingStagingFiles ::
  "WarehouseT \<Rightarrow> world \<Rightarrow> stop + (StagingFileT list \<times> world)" where
  "getPendingStagingFiles w s =
     (if \<not> dbUp s then Inl SqlErrorPanic
      else Inr (selectPendingStagingFiles w s, logCall (GetPendingStagingFilesCall w) s))"

text \<open>
  Upload rows whose \<^verbatim>\<open>end_staging_file_id\<close> grows with the upload id, and a table in
  which no upload id is beyond the sequence and the rows of one source, destination and
  destination type are such rows. The main loop builds such tables only: it inserts rows
  through \<^verbatim>\<open>initUpload\<close> alone, for a pair without pending uploads, over staging files
  beyond the last terminal upload, in ascending id.
\<close>

definition endsFollowIds :: "UploadRow list \<Rightarrow> bool" where
  "endsFollowIds us =
     (\<forall>u \<in> set us. \<forall>u' \<in> set us.
        upr_id u \<le> upr_id u' \<longrightarrow> upr_end_staging_file_id u \<le> upr_end_staging_file_id u')"

definition sameRoute :: "UploadRow \<Rightarrow> UploadRow \<Rightarrow> bool" where
  "sameRoute u u' =
     (upr_source_id u = upr_source_id u' \<and> upr_destination_id u = upr_destination_id u'
      \<and> upr_destination_type u = upr_destination_type u')"

definition orderlyTable :: "world \<Rightarrow> bool" where
  "orderlyTable s =
     ((\<forall>u \<in> set (wh_uploads s). upr_id u \<le> wh_uploads_id_seq s)
      \<and> (\<forall>u \<in> set (wh_uploads s). \<forall>u' \<in> set (wh_uploads s).
            sameRoute u u' \<and> upr_id u \<le> upr_id u'
              \<longrightarrow> upr_end_staging_file_id u \<le> upr_end_staging_file_id u'))"

subsection \<open>Router setup\<close>

definition setInterruptedDestinations :: "world \<Rightarrow> stop + world" where
  "setInterruptedDestinations s =
     (if destType s \<notin> set crashRecoverWarehouses then Inr s
      else if \<not> dbUp s then Inl SqlErrorPanic
      else Inr (s\<lparr>inRecoveryMap :=
                    fold (\<lambda>destID m. m(destID \<mapsto> True))
                      (map upr_destination_id
                         (filter (\<lambda>u. upr_destination_type u = destType s
                                      \<and> (upr_status u = ExportingDataState
                                         \<or> upr_status u = ExportingDataFailedState))
                            (wh_uploads s)))
                      (inRecoveryMap s)\<rparr>))"

text \<open>
  \<^verbatim>\<open>Setup\<close> up to the point where it starts the two goroutines; the error that
  \<^verbatim>\<open>setInterruptedDestinations\<close> returns is always nil and is dropped.
\<close>

definition Setup :: "string \<Rightarrow> world \<Rightarrow> stop + world" where
  "Setup whType s =
     (case setInterruptedDestinations (s\<lparr>destType := whType\<rparr>) of
        Inl e \<Rightarrow> Inl e
      | Inr s1 \<Rightarrow> Inr (s1\<lparr>isEnabled := True, workerChannelMap := Map.empty\<rparr>))"

subsection \<open>The in-progress registry and the two gates\<close>

definition connectionString :: "WarehouseT \<Rightarrow> string" where
  "connectionString w =
     ''source:'' @ src_ID (Source w) @ '':destination:'' @ dst_ID (Destination w)"

definition workerIdentifier :: "WarehouseT \<Rightarrow> string" where
  "workerIdentifier w = dst_ID (Destination w) @ ''_'' @ Namespace w"

definition setDestInProgress :: "WarehouseT \<Rightarrow> bool \<Rightarrow> world \<Rightarrow> world" where
  "setDestInProgress w starting s =
     (if starting
      then s\<lparr>inProgressMap := (inProgressMap s)(connectionString w \<mapsto> True)\<rparr>
      else s\<lparr>inProgressMap := (inProgressMap s)(connectionString w := None)\<rparr>)"

definition isDestInProgress :: "WarehouseT \<Rightarrow> world \<Rightarrow> bool" where
  "isDestInProgress w s = (inProgressMap s (connectionString w) = Some True)"

text \<open>
  \<^verbatim>\<open>uploadFrequencyExceeded\<close>: the error of \<^verbatim>\<open>ParseInt\<close> is dropped, the product and
  the difference are \<^verbatim>\<open>int64\<close>.
\<close>

definition uploadFrequencyExceeded ::
  "config \<Rightarrow> env \<Rightarrow> WarehouseT \<Rightarrow> string \<Rightarrow> world \<Rightarrow> bool" where
  "uploadFrequencyExceeded cfg e w syncFreq s =
     (let freqInS = (if syncFreq \<noteq> [] then int64 (fst (ParseInt syncFreq) * 60)
                     else uploadFreqInS cfg)
      in case lastExecMap s (connectionString w) of
           Some lastExecTime \<Rightarrow> int64 (now e - lastExecTime) < freqInS
         | None \<Rightarrow> False)"

definition setLastExec :: "env \<Rightarrow> WarehouseT \<Rightarrow> world \<Rightarrow> world" where
  "setLastExec e w s =
     logCall (SetLastExecCall w)
       (s\<lparr>lastExecMap := (lastExecMap s)(connectionString w \<mapsto> now e)\<rparr>)"

text \<open>
  Modelled from the spec: \<^verbatim>\<open>canStartUpload\<close> is called by \<^verbatim>\<open>mainLoop\<close> and defined
  in a file that is not under src/. Spec 4.D: "Frequency gate for a fresh upload: a pair
  may start iff no upload has been started within syncFrequency minutes (or the default
  uploadFreqInS) for that pair." The sync frequency it passes on is read from the
  warehouse's configuration outside this file and is a parameter. \<^verbatim>\<open>loadConfig\<close> also
  reads \<^verbatim>\<open>warehouseSyncFreqIgnore\<close>; nothing in this file uses it and the spec gives it no
  meaning, so it is not part of the model.
\<close>

definition canStartUpload :: "config \<Rightarrow> env \<Rightarrow> WarehouseT \<Rightarrow> world \<Rightarrow> bool" where
  "canStartUpload cfg e w s = (\<not> uploadFrequencyExceeded cfg e w (syncFrequency e w) s)"

text \<open>
  Modelled from the spec: \<^verbatim>\<open>canStartPendingUpload\<close> is called by \<^verbatim>\<open>mainLoop\<close> and
  defined in a file that is not under src/. Spec 4.D: "Retry gate for a pending upload is
  allowed to start iff: attempts < minRetryAttempts OR now - firstAttemptAt <
  retryTimeWindow." The window is in seconds here, as the instants are.
\<close>

definition canStartPendingUpload :: "config \<Rightarrow> env \<Rightarrow> UploadT \<Rightarrow> WarehouseT \<Rightarrow> bool" where
  "canStartPendingUpload cfg e u w =
     (up_Attempts u < minRetryAttempts cfg \<or> now e - up_FirstAttemptAt u < retryTimeWindow cfg)"

subsection \<open>Pending uploads and new uploads\<close>

text \<open>
  Modelled from the spec: \<^verbatim>\<open>warehouseutils.TimingFromJSONString\<close> and the \<^verbatim>\<open>gjson\<close>
  lookup are not under src/. Spec 4.A: "extract, from each upload's timings JSON array,
  the first and last transition timestamps, and from error JSON the attempt counter for
  the last state." A missing timing reads as the empty state and the zero time, a missing
  counter as 0.
\<close>

definition TimingFromJSONString :: "(string \<times> int) option \<Rightarrow> string \<times> int" where
  "TimingFromJSONString t = (case t of None \<Rightarrow> ([], zeroTime) | Some (st, at) \<Rightarrow> (st, at))"

definition attemptOf :: "(string \<times> int) list \<Rightarrow> string \<Rightarrow> int" where
  "attemptOf err st = (case map_of err st of None \<Rightarrow> 0 | Some n \<Rightarrow> n)"

definition scanUpload :: "UploadRow \<Rightarrow> UploadT" where
  "scanUpload r =
     (let firstTiming = (case upr_timings r of [] \<Rightarrow> None | t # _ \<Rightarrow> Some t);
          lastTiming = (case upr_timings r of [] \<Rightarrow> None | _ # _ \<Rightarrow> Some (last (upr_timings r)));
          lastStatus = fst (TimingFromJSONString lastTiming)
      in \<lparr>up_ID = upr_id r, up_Namespace = upr_namespace r, up_SourceID = upr_source_id r,
          up_DestinationID = upr_destination_id r,
          up_DestinationType = upr_destination_type r,
          up_StartStagingFileID = upr_start_staging_file_id r,
          up_EndStagingFileID = upr_end_staging_file_id r,
          up_StartLoadFileID = upr_start_load_file_id r,
          up_EndLoadFileID = upr_end_load_file_id r,
          up_Status = upr_status r, up_Schema = upr_schema r, up_Error = upr_error r,
          up_FirstAttemptAt = snd (TimingFromJSONString firstTiming),
          up_LastAttemptAt = snd (TimingFromJSONString lastTiming),
          up_Attempts = attemptOf (upr_error r) lastStatus\<rparr>)"

definition pendingRows :: "WarehouseT \<Rightarrow> world \<Rightarrow> UploadRow list" where
  "pendingRows w s =
     sort_key upr_id
       (filter (\<lambda>u. upr_destination_type u = destType s
                    \<and> upr_source_id u = src_ID (Source w)
                    \<and> upr_destination_id u = dst_ID (Destination w)
                    \<and> upr_status u \<noteq> ExportedDataState \<and> upr_status u \<noteq> AbortedState)
          (wh_uploads s))"

definition getPendingUploads ::
  "WarehouseT \<Rightarrow> world \<Rightarrow> stop + ((UploadT list \<times> bool) \<times> world)" where
  "getPendingUploads w s =
     (if \<not> dbUp s then Inl SqlErrorPanic
      else let uploads = map scanUpload (pendingRows w s)
           in Inr ((uploads, length uploads > 0), logCall (GetPendingUploadsCall w) s))"

text \<open>
  \<^verbatim>\<open>initUpload\<close> prepares the statement, reads the first and the last staging file of
  the list, inserts a row in status Waiting and returns the upload with the id that the
  insert returned (the next value of the table's sequence).
\<close>

definition initUpload ::
  "env \<Rightarrow> WarehouseT \<Rightarrow> StagingFileT list \<Rightarrow> world \<Rightarrow> stop + (UploadT \<times> world)" where
  "initUpload e w jsonUploadsList s =
     (if \<not> dbUp s then Inl SqlErrorPanic
      else if jsonUploadsList = [] then Inl IndexOutOfRangePanic
      else
        let startJSONID = sf_ID (hd jsonUploadsList);
            endJSONID = sf_ID (last jsonUploadsList);
            firstEventAt = (if sf_FirstEventAt (hd jsonUploadsList) \<noteq> zeroTime
                            then sf_FirstEventAt (hd jsonUploadsList) else zeroTime);
            lastEventAt = (if sf_LastEventAt (last jsonUploadsList) \<noteq> zeroTime
                           then sf_LastEventAt (last jsonUploadsList) else zeroTime);
            uploadID = wh_uploads_id_seq s + 1;
            row = \<lparr>upr_id = uploadID, upr_source_id = src_ID (Source w),
                   upr_namespace = Namespace w, upr_destination_id = dst_ID (Destination w),
                   upr_destination_type = destType s,
                   upr_start_staging_file_id = startJSONID,
                   upr_end_staging_file_id = endJSONID,
                   upr_start_load_file_id = 0, upr_end_load_file_id = 0,
                   upr_status = WaitingState, upr_schema = ''{}'', upr_error = [],
                   upr_timings = [], upr_first_event_at = firstEventAt,
                   upr_last_event_at = lastEventAt, upr_created_at = now e,
                   upr_updated_at = now e\<rparr>;
            upload = zeroUploadT
                   \<lparr>up_ID := uploadID, up_Namespace := Namespace w,
                    up_SourceID := src_ID (Source w),
                    up_DestinationID := dst_ID (Destination w),
                    up_DestinationType := destType s,
                    up_StartStagingFileID := startJSONID,
                    up_EndStagingFileID := endJSONID, up_Status := WaitingState\<rparr>
        in Inr (upload,
                logCall (InitUploadCall w startJSONID endJSONID)
                  (s\<lparr>wh_uploads := wh_uploads s @ [row], wh_uploads_id_seq := uploadID\<rparr>)))"

subsection \<open>The main loop\<close>

text \<open>
  \<^verbatim>\<open>wh.workerChannelMap[workerName] <- uploads\<close>: a send on the nil channel of a
  missing key, or on a channel whose buffer of 100 batches is full, does not complete.
\<close>

definition enqueueUploadJobs :: "UploadJobT list \<Rightarrow> WarehouseT \<Rightarrow> world \<Rightarrow> stop + world" where
  "enqueueUploadJobs uploads w s =
     (case workerChannelMap s (workerIdentifier w) of
        None \<Rightarrow> Inl BlockedOnChannel
      | Some queue \<Rightarrow>
          if length queue \<ge> 100 then Inl BlockedOnChannel
          else Inr (logCall (EnqueueCall w (length uploads))
                      (s\<lparr>workerChannelMap :=
                           (workerChannelMap s)(workerIdentifier w \<mapsto> queue @ [uploads])\<rparr>)))"

text \<open>
  The loop over the pending uploads. The range variable \<^verbatim>\<open>pendingUpload\<close> is one
  variable for the whole loop (the language before Go 1.22, which this repository is
  written in): each iteration assigns the next upload to the cell at address \<open>a\<close>, and
  every job gets \<^verbatim>\<open>&pendingUpload\<close>, that same address. A rejected upload clears the
  in-progress bit and leaves the loop.
\<close>

fun pendingLoop ::
  "config \<Rightarrow> env \<Rightarrow> WarehouseT \<Rightarrow> nat \<Rightarrow> UploadT list \<Rightarrow> UploadJobT list \<Rightarrow> world
     \<Rightarrow> stop + (UploadJobT list \<times> world)" where
  "pendingLoop cfg e w a [] uploadJobs s = Inr (uploadJobs, s)"
| "pendingLoop cfg e w a (pendingUpload # rest) uploadJobs s =
     (let s1 = s\<lparr>store := (store s)[a := pendingUpload]\<rparr>
      in if \<not> canStartPendingUpload cfg e pendingUpload w
         then Inr (uploadJobs, setDestInProgress w False s1)
         else
           (case getStagingFiles w (up_StartStagingFileID pendingUpload)
                   (up_EndStagingFileID pendingUpload) s1 of
              Inl stp \<Rightarrow> Inl stp
            | Inr (stagingFilesList, s2) \<Rightarrow>
                if \<not> managerNew_ok e (destType s2) then Inl ManagerErrorPanic
                else pendingLoop cfg e w a rest
                       (uploadJobs @ [\<lparr>job_upload = a, job_stagingFiles = stagingFilesList,
                                       job_warehouse = w\<rparr>]) s2))"

definition slice :: "'a list \<Rightarrow> int \<Rightarrow> int \<Rightarrow> stop + 'a list" where
  "slice xs i j =
     (if 0 \<le> i \<and> i \<le> j \<and> j \<le> int (length xs)
      then Inr (take (nat (j - i)) (drop (nat i) xs))
      else Inl SliceBoundsPanic)"

text \<open>
  The loop that cuts the pending staging files into uploads. \<^verbatim>\<open>upload\<close> is declared in
  the body, so each job points at a cell of its own; \<open>cnt\<close> is the variable \<^verbatim>\<open>count\<close>.
\<close>

function freshLoop ::
  "config \<Rightarrow> env \<Rightarrow> WarehouseT \<Rightarrow> StagingFileT list \<Rightarrow> int \<Rightarrow> UploadJobT list \<Rightarrow> world
     \<Rightarrow> stop + (UploadJobT list \<times> world)" where
  "freshLoop cfg e w stagingFilesList cnt uploadJobs s =
     (case slice stagingFilesList cnt
             (if cnt + stagingFilesBatchSize cfg \<ge> int (length stagingFilesList)
              then int (length stagingFilesList) else cnt + stagingFilesBatchSize cfg) of
        Inl stp \<Rightarrow> Inl stp
      | Inr chunk \<Rightarrow>
          (case initUpload e w chunk s of
             Inl stp \<Rightarrow> Inl stp
           | Inr (upload, s1) \<Rightarrow>
               if \<not> managerNew_ok e (destType s1) then Inl ManagerErrorPanic
               else if cnt + stagingFilesBatchSize cfg \<ge> int (length stagingFilesList)
               then Inr (uploadJobs @ [\<lparr>job_upload = length (store s1), job_stagingFiles = chunk,
                                        job_warehouse = w\<rparr>],
                         s1\<lparr>store := store s1 @ [upload]\<rparr>)
               else freshLoop cfg e w stagingFilesList (cnt + stagingFilesBatchSize cfg)
                      (uploadJobs @ [\<lparr>job_upload = length (store s1), job_stagingFiles = chunk,
                                      job_warehouse = w\<rparr>])
                      (s1\<lparr>store := store s1 @ [upload]\<rparr>)))"
  by pat_completeness auto
termination
proof (relation "measure (\<lambda>(cfg, e, w, fs, cnt, jobs, s). nat (int (length fs) - cnt))")
  show "wf (measure (\<lambda>(cfg, e, w, fs, cnt, jobs, s). nat (int (length fs) - cnt)))"
    by simp
next
  fix cfg :: config and e :: env and w :: WarehouseT and stagingFilesList :: "StagingFileT list"
    and cnt :: int and uploadJobs :: "UploadJobT list" and s :: world
    and chunk x upload s1
  assume sl: "slice stagingFilesList cnt
             (if cnt + stagingFilesBatchSize cfg \<ge> int (length stagingFilesList)
              then int (length stagingFilesList) else cnt + stagingFilesBatchSize cfg) = Inr chunk"
    and iu: "initUpload e w chunk s = Inr x"
    and more: "\<not> int (length stagingFilesList) \<le> cnt + stagingFilesBatchSize cfg"
  from iu have "chunk \<noteq> []"
    by (auto simp: initUpload_def split: if_splits)
  with sl more have "0 < stagingFilesBatchSize cfg"
    by (auto simp: slice_def split: if_splits)
  with more show "((cfg, e, w, stagingFilesList, cnt + stagingFilesBatchSize cfg,
           uploadJobs @ [\<lparr>job_upload = length (store s1), job_stagingFiles = chunk, job_warehouse = w\<rparr>],
           s1\<lparr>store := store s1 @ [upload]\<rparr>),
          cfg, e, w, stagingFilesList, cnt, uploadJobs, s)
         \<in> measure (\<lambda>(cfg, e, w, fs, cnt, jobs, s). nat (int (length fs) - cnt))"
    by simp
qed

declare freshLoop.simps [simp del]

text \<open>The two branches after \<^verbatim>\<open>getPendingUploads\<close>, and the body of the loop over the
  warehouses.\<close>

definition pendingPath ::
  "config \<Rightarrow> env \<Rightarrow> WarehouseT \<Rightarrow> UploadT list \<Rightarrow> world \<Rightarrow> stop + world" where
  "pendingPath cfg e w pendingUploads s =
     (case pendingLoop cfg e w (length (store s)) pendingUploads []
             (s\<lparr>store := store s @ [zeroUploadT]\<rparr>) of
        Inl stp \<Rightarrow> Inl stp
      | Inr (uploadJobs, s1) \<Rightarrow>
          if length uploadJobs = 0 then Inr s1 else enqueueUploadJobs uploadJobs w s1)"

definition freshPath :: "config \<Rightarrow> env \<Rightarrow> WarehouseT \<Rightarrow> world \<Rightarrow> stop + world" where
  "freshPath cfg e w s =
     (if \<not> canStartUpload cfg e w s then Inr (setDestInProgress w False s)
      else
        (case getPendingStagingFiles w (setLastExec e w s) of
           Inl stp \<Rightarrow> Inl stp
         | Inr (stagingFilesList, s1) \<Rightarrow>
             if length stagingFilesList = 0 then Inr (setDestInProgress w False s1)
             else
               (case freshLoop cfg e w stagingFilesList 0 [] s1 of
                  Inl stp \<Rightarrow> Inl stp
                | Inr (uploadJobs, s2) \<Rightarrow> enqueueUploadJobs uploadJobs w s2)))"

definition uploadsPath :: "config \<Rightarrow> env \<Rightarrow> WarehouseT \<Rightarrow> world \<Rightarrow> stop + world" where
  "uploadsPath cfg e w s =
     (case getPendingUploads w s of
        Inl stp \<Rightarrow> Inl stp
      | Inr ((pendingUploads, ok), s1) \<Rightarrow>
          if ok then pendingPath cfg e w pendingUploads s1 else freshPath cfg e w s1)"

definition processWarehouse :: "config \<Rightarrow> env \<Rightarrow> WarehouseT \<Rightarrow> world \<Rightarrow> stop + world" where
  "processWarehouse cfg e w s =
     (if isDestInProgress w s then Inr s
      else
        let s1 = setDestInProgress w True s
        in if inRecoveryMap s1 (dst_ID (Destination w)) \<noteq> None
           then
             if \<not> managerNew_ok e (destType s1) then Inl ManagerErrorPanic
             else if crashRecover_err e w
             then Inr (setDestInProgress w False (logCall (CrashRecoverCall w) s1))
             else uploadsPath cfg e w
                    ((logCall (CrashRecoverCall w) s1)
                       \<lparr>inRecoveryMap := (inRecoveryMap s1)(dst_ID (Destination w) := None)\<rparr>)
           else uploadsPath cfg e w s1)"

fun forEachWarehouse ::
  "config \<Rightarrow> env \<Rightarrow> WarehouseT list \<Rightarrow> world \<Rightarrow> stop + world" where
  "forEachWarehouse cfg e [] s = Inr s"
| "forEachWarehouse cfg e (w # ws) s =
     (case processWarehouse cfg e w s of
        Inl stp \<Rightarrow> Inl stp
      | Inr s1 \<Rightarrow> forEachWarehouse cfg e ws s1)"

text \<open>
  One iteration of \<^verbatim>\<open>mainLoop\<close>, up to its sleep, and the loop run for as many
  iterations as there are environments.
\<close>

definition mainLoopTick :: "config \<Rightarrow> env \<Rightarrow> world \<Rightarrow> stop + world" where
  "mainLoopTick cfg e s =
     (if \<not> isEnabled s then Inr s else forEachWarehouse cfg e (warehouses s) s)"

fun mainLoop :: "config \<Rightarrow> env list \<Rightarrow> world \<Rightarrow> stop + world" where
  "mainLoop cfg [] s = Inr s"
| "mainLoop cfg (e # es) s =
     (case mainLoopTick cfg e s of Inl stp \<Rightarrow> Inl stp | Inr s1 \<Rightarrow> mainLoop cfg es s1)"

subsection \<open>The worker\<close>

definition deref :: "world \<Rightarrow> nat \<Rightarrow> UploadT option" where
  "deref s a = (if a < length (store s) then Some (store s ! a) else None)"

text \<open>
  The loop over the jobs of a batch. \<^verbatim>\<open>job.run\<close> is outside this file: a parameter
  that says whether the run returned an error and what it did to the state.
\<close>

fun runJobs ::
  "(UploadJobT \<Rightarrow> world \<Rightarrow> bool \<times> world) \<Rightarrow> UploadJobT list \<Rightarrow> world \<Rightarrow> stop + world" where
  "runJobs run [] s = Inr s"
| "runJobs run (job # jobs) s =
     (case run job s of
        (failed, s1) \<Rightarrow>
          (case deref s1 (job_upload job) of
             None \<Rightarrow> Inl NilDereferencePanic
           | Some u \<Rightarrow>
               let destID = dst_ID (Destination (job_warehouse job));
                   s2 = logCall (RecordDeliveryStatusCall destID (up_ID u))
                          (logCall (RunCall job failed) s1)
               in if failed then Inr (logCall (CountCall ''failed_uploads'' destID 1) s2)
                  else runJobs run jobs
                         (logCall (CountCall ''load_staging_files_into_warehouse'' destID
                                     (length (job_stagingFiles job)))
                            (logCall (OnSuccessfulUploadCall (job_warehouse job)) s2))))"

text \<open>
  \<^verbatim>\<open>handleUploadJobs\<close> run by itself: with the counter at the limit nobody lowers it and
  the admission loop never ends.
\<close>

definition handleUploadJobs ::
  "config \<Rightarrow> (UploadJobT \<Rightarrow> world \<Rightarrow> bool \<times> world) \<Rightarrow> UploadJobT list \<Rightarrow> world
     \<Rightarrow> stop + world" where
  "handleUploadJobs cfg run jobs s =
     (if activeWorkerCount s \<ge> noOfWorkers cfg then Inl WaitsForWorkerSlot
      else if jobs = [] then Inl IndexOutOfRangePanic
      else
        (case runJobs run jobs (s\<lparr>activeWorkerCount := activeWorkerCount s + 1\<rparr>) of
           Inl stp \<Rightarrow> Inl stp
         | Inr s1 \<Rightarrow> Inr (s1\<lparr>activeWorkerCount := activeWorkerCount s1 - 1\<rparr>)))"

subsection \<open>Workers that share the counter\<close>

text \<open>
  Several workers run \<^verbatim>\<open>handleUploadJobs\<close> at once. What they do to
  \<^verbatim>\<open>activeWorkerCount\<close> happens with \<^verbatim>\<open>activeWorkerCountLock\<close> held, so each locked
  section is one step: a worker in the admission loop reads the counter and either
  unlocks, sleeps and stays in the loop, or increments it and goes on to its batch; a
  worker that has finished its batch decrements it.
\<close>

datatype phase = Idle | Admission | Engaged

record pool =
  pool_activeWorkerCount :: int
  phases :: "phase list"

datatype action = Spawn | Receive nat | TryAdmit nat | Finish nat

definition poolStep :: "config \<Rightarrow> action \<Rightarrow> pool \<Rightarrow> pool option" where
  "poolStep cfg act p =
     (case act of
        Spawn \<Rightarrow> Some (p\<lparr>phases := phases p @ [Idle]\<rparr>)
      | Receive i \<Rightarrow>
          if i < length (phases p) \<and> phases p ! i = Idle
          then Some (p\<lparr>phases := (phases p)[i := Admission]\<rparr>) else None
      | TryAdmit i \<Rightarrow>
          if i < length (phases p) \<and> phases p ! i = Admission
          then (if pool_activeWorkerCount p \<ge> noOfWorkers cfg then Some p
                else Some (p\<lparr>pool_activeWorkerCount := pool_activeWorkerCount p + 1,
                             phases := (phases p)[i := Engaged]\<rparr>))
          else None
      | Finish i \<Rightarrow>
          if i < length (phases p) \<and> phases p ! i = Engaged
          then Some (p\<lparr>pool_activeWorkerCount := pool_activeWorkerCount p - 1,
                       phases := (phases p)[i := Idle]\<rparr>)
          else None)"

fun poolRun :: "config \<Rightarrow> action list \<Rightarrow> pool \<Rightarrow> pool option" where
  "poolRun cfg [] p = Some p"
| "poolRun cfg (act # acts) p =
     (case poolStep cfg act p of None \<Rightarrow> None | Some q \<Rightarrow> poolRun cfg acts q)"

definition initialPool :: pool where
  "initialPool = \<lparr>pool_activeWorkerCount = 0, phases = []\<rparr>"

subsection \<open>Reading the log of a batch\<close>

text \<open>
  The jobs that ran with their outcome, the destinations whose delivery status was
  recorded, the increments of the failure counter and the warehouses passed to
  \<^verbatim>\<open>onSuccessfulUpload\<close>, in the order of the log; the calls that one job makes; and
  the logs that a batch can leave behind.
\<close>

definition ranJobs :: "call list \<Rightarrow> (UploadJobT \<times> bool) list" where
  "ranJobs cs = concat (map (\<lambda>c. case c of RunCall job failed \<Rightarrow> [(job, failed)] | _ \<Rightarrow> []) cs)"

definition deliveryRecorded :: "call list \<Rightarrow> string list" where
  "deliveryRecorded cs =
     concat (map (\<lambda>c. case c of RecordDeliveryStatusCall destID uploadID \<Rightarrow> [destID] | _ \<Rightarrow> []) cs)"

definition failuresCounted :: "call list \<Rightarrow> (string \<times> nat) list" where
  "failuresCounted cs =
     concat (map (\<lambda>c. case c of
                        CountCall name destID n \<Rightarrow> if name = ''failed_uploads'' then [(destID, n)] else []
                      | _ \<Rightarrow> []) cs)"

definition successfulUploads :: "call list \<Rightarrow> WarehouseT list" where
  "successfulUploads cs =
     concat (map (\<lambda>c. case c of OnSuccessfulUploadCall w \<Rightarrow> [w] | _ \<Rightarrow> []) cs)"

definition jobCalls :: "UploadJobT \<Rightarrow> bool \<Rightarrow> int \<Rightarrow> call list" where
  "jobCalls job failed uploadID =
     [RunCall job failed,
      RecordDeliveryStatusCall (dst_ID (Destination (job_warehouse job))) uploadID]
     @ (if failed
        then [CountCall ''failed_uploads'' (dst_ID (Destination (job_warehouse job))) 1]
        else [OnSuccessfulUploadCall (job_warehouse job),
              CountCall ''load_staging_files_into_warehouse''
                (dst_ID (Destination (job_warehouse job))) (length (job_stagingFiles job))])"

inductive batchLog :: "UploadJobT list \<Rightarrow> call list \<Rightarrow> bool" where
  batch_done: "batchLog [] []"
| batch_failed: "batchLog (job # jobs) (jobCalls job True uploadID)"
| batch_next: "batchLog jobs cs \<Longrightarrow> batchLog (job # jobs) (jobCalls job False uploadID @ cs)"

subsection \<open>The number of engaged workers\<close>

definition engaged :: "pool \<Rightarrow> nat" where
  "engaged p = length (filter (\<lambda>ph. ph = Engaged) (phases p))"

definition poolInv :: "config \<Rightarrow> pool \<Rightarrow> bool" where
  "poolInv cfg p = (pool_activeWorkerCount p = int (engaged p)
                    \<and> pool_activeWorkerCount p \<le> noOfWorkers cfg)"

subsection \<open>The loops in closed form\<close>

text \<open>
  The state that \<^verbatim>\<open>pendingLoop\<close> leaves behind when the database answers: the cell of
  the range variable holds the upload assigned last (the rejected one, or the last of
  the list), the statements for the admitted uploads are logged, and a rejection has
  cleared the in-progress bit.
\<close>

definition pendingLoopState ::
  "config \<Rightarrow> env \<Rightarrow> WarehouseT \<Rightarrow> nat \<Rightarrow> UploadT list \<Rightarrow> world \<Rightarrow> world" where
  "pendingLoopState cfg e w a us s =
     (let adm = takeWhile (\<lambda>u. canStartPendingUpload cfg e u w) us;
          rej = dropWhile (\<lambda>u. canStartPendingUpload cfg e u w) us
      in s\<lparr>store := (if us = [] then store s
                      else (store s)[a := (if rej = [] then last us else hd rej)]),
           calls := calls s @ map (\<lambda>u. GetStagingFilesCall w (up_StartStagingFileID u)
                                      (up_EndStagingFileID u)) adm,
           inProgressMap := (if rej = [] then inProgressMap s
                             else (inProgressMap s)(connectionString w := None))\<rparr>)"

text \<open>
  The state in which the loop body reaches \<^verbatim>\<open>getPendingUploads\<close>: the in-progress bit
  is set, and a destination that was in the recovery set has been recovered and removed.
\<close>

definition afterRecovery :: "WarehouseT \<Rightarrow> world \<Rightarrow> world" where
  "afterRecovery w s =
     (if inRecoveryMap s (dst_ID (Destination w)) \<noteq> None
      then (logCall (CrashRecoverCall w) (setDestInProgress w True s))
             \<lparr>inRecoveryMap := (inRecoveryMap s)(dst_ID (Destination w) := None)\<rparr>
      else setDestInProgress w True s)"

text \<open>
  A list cut into consecutive chunks of \<open>n\<close> elements, the last one possibly shorter, and
  the uploads that \<^verbatim>\<open>freshLoop\<close> creates, one chunk after the other.
\<close>

function chunksOf :: "nat \<Rightarrow> 'a list \<Rightarrow> 'a list list" where
  "chunksOf n xs = (if n = 0 \<or> xs = [] then [] else take n xs # chunksOf n (drop n xs))"
  by pat_completeness auto
termination
  by (relation "measure (\<lambda>(n, xs). length xs)") auto

declare chunksOf.simps [simp del]

fun createUploads ::
  "env \<Rightarrow> WarehouseT \<Rightarrow> StagingFileT list list \<Rightarrow> UploadJobT list \<Rightarrow> world
     \<Rightarrow> stop + (UploadJobT list \<times> world)" where
  "createUploads e w [] uploadJobs s = Inr (uploadJobs, s)"
| "createUploads e w (chunk # chunks) uploadJobs s =
     (case initUpload e w chunk s of
        Inl stp \<Rightarrow> Inl stp
      | Inr (upload, s1) \<Rightarrow>
          if \<not> managerNew_ok e (destType s1) then Inl ManagerErrorPanic
          else createUploads e w chunks
                 (uploadJobs @ [\<lparr>job_upload = length (store s1), job_stagingFiles = chunk,
                                 job_warehouse = w\<rparr>])
                 (s1\<lparr>store := store s1 @ [upload]\<rparr>))"

subsection \<open>Concrete scenarios\<close>

definition exSource :: SourceT where
  "exSource = \<lparr>src_ID = ''S'', src_Name = ''web''\<rparr>"

definition exDestination :: "string \<Rightarrow> DestinationT" where
  "exDestination t =
     \<lparr>dst_ID = ''D'', dst_Enabled = True, dst_Config = Map.empty, dst_DefinitionName = t\<rparr>"

definition exWarehouse :: "string \<Rightarrow> WarehouseT" where
  "exWarehouse t =
     \<lparr>Source = exSource, Destination = exDestination t, Namespace = ''ns'', Type = t\<rparr>"

definition exHelpers :: namespaceHelpers where
  "exHelpers =
     \<lparr>ToProviderCase = (\<lambda>t n. n), ToSafeNamespace = (\<lambda>t n. n),
      GetNamespace = (\<lambda>src dst. ([], False)), TrimSpace = (\<lambda>n. n)\<rparr>"

definition exWorld :: "string \<Rightarrow> world" where
  "exWorld t =
     \<lparr>dbUp = True, wh_staging_files = [], wh_uploads = [], wh_uploads_id_seq = 0,
      destType = t, isEnabled = True, warehouses = [exWarehouse t],
      workerChannelMap = [''D_ns'' \<mapsto> []], inProgressMap = Map.empty,
      inRecoveryMap = Map.empty, lastExecMap = Map.empty, activeWorkerCount = 0,
      store = [], calls = []\<rparr>"

definition exStagingFile :: "int \<Rightarrow> StagingFileRow" where
  "exStagingFile i =
     \<lparr>sfr_id = i, sfr_location = ''loc'', sfr_source_id = ''S'', sfr_destination_id = ''D'',
      sfr_first_event_at = None, sfr_last_event_at = None\<rparr>"

definition exUpload :: "int \<Rightarrow> string \<Rightarrow> UploadState \<Rightarrow> int \<Rightarrow> int \<Rightarrow> UploadRow" where
  "exUpload i t st a b =
     \<lparr>upr_id = i, upr_source_id = ''S'', upr_namespace = ''ns'', upr_destination_id = ''D'',
      upr_destination_type = t, upr_start_staging_file_id = a,
      upr_end_staging_file_id = b, upr_start_load_file_id = 0, upr_end_load_file_id = 0,
      upr_status = st, upr_schema = ''{}'', upr_error = [], upr_timings = [],
      upr_first_event_at = zeroTime, upr_last_event_at = zeroTime, upr_created_at = 0,
      upr_updated_at = 0\<rparr>"

text \<open>
  The tables after two uploads of one pair, over its staging files 1, 5 and 6, 10, have
  reached a terminal status and two more staging files have arrived.
\<close>

definition twoTerminalWorld :: world where
  "twoTerminalWorld =
     (exWorld ''POSTGRES'')
       \<lparr>wh_uploads := [exUpload 1 ''POSTGRES'' ExportedDataState 1 5,
                       exUpload 2 ''POSTGRES'' AbortedState 6 10],
        wh_uploads_id_seq := 2,
        wh_staging_files := map exStagingFile [1, 5, 6, 10, 11, 12]\<rparr>"

text \<open>An upload of a BigQuery destination that a crash interrupted while exporting.\<close>

definition interruptedWorld :: "string \<Rightarrow> world" where
  "interruptedWorld t =
     (exWorld t)\<lparr>wh_uploads := [exUpload 1 t ExportingDataState 1 5]\<rparr>"

definition exConfig :: config where
  "exConfig = \<lparr>noOfWorkers = 8, stagingFilesBatchSize = 240, uploadFreqInS = 1800,
     minRetryAttempts = 3, retryTimeWindow = 10800\<rparr>"

text \<open>A batch of three jobs, and a run that fails for the job that points at cell 1.\<close>

definition exRun :: "UploadJobT \<Rightarrow> world \<Rightarrow> bool \<times> world" where
  "exRun job s = (job_upload job = 1, s)"

definition exBatch :: "UploadJobT list" where
  "exBatch = map (\<lambda>a. \<lparr>job_upload = a, job_stagingFiles = [],
                        job_warehouse = exWarehouse ''POSTGRES''\<rparr>) [0, 1, 2]"

definition batchWorld :: world where
  "batchWorld = (exWorld ''POSTGRES'')
     \<lparr>store := [zeroUploadT\<lparr>up_ID := 11\<rparr>, zeroUploadT\<lparr>up_ID := 12\<rparr>,
                zeroUploadT\<lparr>up_ID := 13\<rparr>]\<rparr>"

definition exEnv :: "int \<Rightarrow> env" where
  "exEnv t = \<lparr>now = t, managerNew_ok = (\<lambda>t. True), crashRecover_err = (\<lambda>w. False),
     syncFrequency = (\<lambda>w. [])\<rparr>"

text \<open>
  A Redshift destination in the recovery set with an upload that a crash interrupted, and
  an environment in which the recovery fails.
\<close>

definition rsWorld :: world where
  "rsWorld =
     (interruptedWorld ''RS'')
       \<lparr>inRecoveryMap := [''D'' \<mapsto> True],
        wh_staging_files := map exStagingFile [1, 2, 3, 4, 5]\<rparr>"

definition failingRecoveryEnv :: env where
  "failingRecoveryEnv = (exEnv 1000)\<lparr>crashRecover_err := (\<lambda>w. True)\<rparr>"

text \<open>
  One failed upload over the staging files 1 to 3 with five attempts, the first of them
  at the instant \<open>t0\<close>.
\<close>

definition retryWorld :: "int \<Rightarrow> world" where
  "retryWorld t0 =
     (exWorld ''POSTGRES'')
       \<lparr>wh_uploads :=
          [(exUpload 1 ''POSTGRES'' (OtherState ''generating_load_file_failed'') 1 3)
             \<lparr>upr_timings := [(''generating_load_file_failed'', t0)],
              upr_error := [(''generating_load_file_failed'', 5)]\<rparr>],
        wh_uploads_id_seq := 1,
        wh_staging_files := map exStagingFile [1, 2, 3]\<rparr>"

text \<open>Two waiting uploads of one pair, over the staging files 1, 2 and 3, 4.\<close>

definition twoPendingWorld :: world where
  "twoPendingWorld =
     (exWorld ''POSTGRES'')
       \<lparr>wh_uploads := [exUpload 1 ''POSTGRES'' WaitingState 1 2,
                       exUpload 2 ''POSTGRES'' WaitingState 3 4],
        wh_uploads_id_seq := 2,
        wh_staging_files := map exStagingFile [1, 2, 3, 4]\<rparr>"

text \<open>
  A pair that started an upload at the instant \<open>t\<close> and has staging files waiting, and an
  environment in which its sync frequency is one minute.
\<close>

definition freqWorld :: "int \<Rightarrow> int list \<Rightarrow> world" where
  "freqWorld t ids =
     (exWorld ''POSTGRES'')
       \<lparr>lastExecMap := [''source:S:destination:D'' \<mapsto> t],
        wh_staging_files := map exStagingFile ids\<rparr>"

definition minuteEnv :: env where
  "minuteEnv = (exEnv 1000)\<lparr>syncFrequency := (\<lambda>w. ''1'')\<rparr>"

text \<open>Five hundred staging files of one pair and no upload.\<close>

definition fiveHundredWorld :: world where
  "fiveHundredWorld =
     (exWorld ''POSTGRES'')\<lparr>wh_staging_files := map (\<lambda>i. exStagingFile (int i)) [1..<501]\<rparr>"

section \<open>Properties\<close>

lemmas ex_defs = exWorld_def exUpload_def exWarehouse_def exSource_def exDestination_def
  exStagingFile_def twoTerminalWorld_def interruptedWorld_def

subsection \<open>Namespace of a ClickHouse destination\<close>

text \<open>
  C10. For a destination of type CLICKHOUSE, \<^verbatim>\<open>getNamespace\<close> returns the string held
  under the key "database" of the destination config as it is, whatever the sanitising
  helpers and the recorded namespace are; it panics when the config is not a map, when
  the key is absent, and when the key holds a value that is not a string.
\<close>

theorem getNamespace_clickhouse:
  "(config = IMap configMap \<and> configMap ''database'' = Some (IString database)
      \<longrightarrow> getNamespace h config source destination ''CLICKHOUSE'' = Inr database)
   \<and> ((\<forall>m. config \<noteq> IMap m)
      \<longrightarrow> getNamespace h config source destination ''CLICKHOUSE'' = Inl TypeAssertionPanic)
   \<and> (config = IMap configMap \<and> configMap ''database'' = None
      \<longrightarrow> getNamespace h config source destination ''CLICKHOUSE'' = Inl TypeAssertionPanic)
   \<and> (config = IMap configMap \<and> configMap ''database'' = Some v \<and> (\<forall>s. v \<noteq> IString s)
      \<longrightarrow> getNamespace h config source destination ''CLICKHOUSE'' = Inl TypeAssertionPanic)"
  by (cases config; cases v) (auto simp: getNamespace_def)

text \<open>
  The four cases at concrete configs: a database name with a space and capitals comes
  back unchanged; a nil config, a config without the key and a numeric database panic.
\<close>

theorem getNamespace_clickhouse_witness:
  "getNamespace exHelpers (IMap [''database'' \<mapsto> IString ''Analytics DB'']) exSource
       (exDestination ''CLICKHOUSE'') ''CLICKHOUSE'' = Inr ''Analytics DB''
   \<and> getNamespace exHelpers INil exSource (exDestination ''CLICKHOUSE'') ''CLICKHOUSE''
       = Inl TypeAssertionPanic
   \<and> getNamespace exHelpers (IMap Map.empty) exSource (exDestination ''CLICKHOUSE'')
       ''CLICKHOUSE'' = Inl TypeAssertionPanic
   \<and> getNamespace exHelpers (IMap [''database'' \<mapsto> INumber 7]) exSource
       (exDestination ''CLICKHOUSE'') ''CLICKHOUSE'' = Inl TypeAssertionPanic"
  using getNamespace_clickhouse [where config = "IMap [''database'' \<mapsto> IString ''Analytics DB'']"
      and configMap = "[''database'' \<mapsto> IString ''Analytics DB'']" and database = "''Analytics DB''"
      and h = exHelpers and source = exSource and destination = "exDestination ''CLICKHOUSE''"]
    getNamespace_clickhouse [where config = INil and h = exHelpers and source = exSource
      and destination = "exDestination ''CLICKHOUSE''"]
    getNamespace_clickhouse [where config = "IMap Map.empty" and configMap = Map.empty
      and h = exHelpers and source = exSource and destination = "exDestination ''CLICKHOUSE''"]
    getNamespace_clickhouse [where config = "IMap [''database'' \<mapsto> INumber 7]"
      and configMap = "[''database'' \<mapsto> INumber 7]" and v = "INumber 7"
      and h = exHelpers and source = exSource and destination = "exDestination ''CLICKHOUSE''"]
  by simp

subsection \<open>Pending staging files\<close>

lemma sorted_le_last: "sorted xs \<Longrightarrow> x \<in> set xs \<Longrightarrow> x \<le> last (xs :: int list)"
  by (induction xs) auto


lemma lastStagingFileID_some:
  assumes "terminalUploads w s \<noteq> []"
  shows "\<exists>u \<in> set (terminalUploads w s).
           lastStagingFileID w s = upr_end_staging_file_id u
           \<and> (\<forall>u' \<in> set (terminalUploads w s). upr_id u' \<le> upr_id u)"
proof -
  let ?ys = "sort_key upr_id (terminalUploads w s)"
  from assms have ne: "?ys \<noteq> []"
    by (metis length_sort length_0_conv)
  then have rv: "rev ?ys = last ?ys # rev (butlast ?ys)"
    by (metis append_butlast_last_id rev.simps(2) rev_append rev_singleton_conv append_Cons append_Nil)
  have sorted: "sorted (map upr_id ?ys)" by simp
  have mem: "last ?ys \<in> set (terminalUploads w s)"
    using ne last_in_set by fastforce
  have "\<forall>u' \<in> set ?ys. upr_id u' \<le> upr_id (last ?ys)"
  proof
    fix u' assume "u' \<in> set ?ys"
    then have "upr_id u' \<in> set (map upr_id ?ys)" by simp
    then have "upr_id u' \<le> last (map upr_id ?ys)"
      using sorted_le_last[OF sorted] by blast
    then show "upr_id u' \<le> upr_id (last ?ys)" using ne by (simp add: last_map)
  qed
  moreover have "lastStagingFileID w s = upr_end_staging_file_id (last ?ys)"
    unfolding lastStagingFileID_def by (simp only: rv list.case)
  ultimately show ?thesis using mem by auto
qed


text \<open>
  The statement selects the terminal uploads by source, destination and the destination
  type of the binding. Where the rows of the pair carry that type, as the rows that
  \<^verbatim>\<open>initUpload\<close> inserts do, these are the terminal uploads of the pair.
\<close>

lemma terminalUploads_of_pair:
  assumes "\<forall>u \<in> set (wh_uploads s).
             upr_source_id u = src_ID (Source w) \<and> upr_destination_id u = dst_ID (Destination w)
               \<longrightarrow> upr_destination_type u = Type w"
  shows "terminalUploads w s
           = filter (\<lambda>u. upr_source_id u = src_ID (Source w)
                         \<and> upr_destination_id u = dst_ID (Destination w)
                         \<and> (upr_status u = ExportedDataState \<or> upr_status u = AbortedState))
               (wh_uploads s)"
  unfolding terminalUploads_def using assms by (intro filter_cong) auto



subsection \<open>Destinations interrupted by a crash\<close>

lemma fold_upd_True:
  "fold (\<lambda>d m. m(d \<mapsto> True)) ds m = (\<lambda>d. if d \<in> set ds then Some True else m d)"
  by (induction ds arbitrary: m) (auto simp: fun_eq_iff)

text \<open>
  C7, as the code has it. With the database up, setting up the router of destination
  type RS (the only member of \<^verbatim>\<open>crashRecoverWarehouses\<close>) records in the recovery set
  the \<^verbatim>\<open>destination_id\<close> of every upload of that type whose status is ExportingData or
  ExportingDataFailed, and nothing else; setting up a router of any other destination
  type leaves the recovery set as it was.
\<close>

theorem Setup_records_interrupted_destinations_of_RS:
  assumes "dbUp s"
  shows "\<exists>s'. Setup whType s = Inr s'
           \<and> (whType = ''RS'' \<longrightarrow>
                (\<forall>d. inRecoveryMap s' d =
                   (if \<exists>u \<in> set (wh_uploads s).
                         upr_destination_id u = d \<and> upr_destination_type u = whType
                         \<and> (upr_status u = ExportingDataState
                            \<or> upr_status u = ExportingDataFailedState)
                    then Some True else inRecoveryMap s d)))
           \<and> (whType \<noteq> ''RS'' \<longrightarrow> inRecoveryMap s' = inRecoveryMap s)"
  using assms
  by (auto simp: Setup_def setInterruptedDestinations_def crashRecoverWarehouses_def
      fold_upd_True)

theorem Setup_records_interrupted_destinations_of_RS_witness:
  "dbUp (interruptedWorld ''RS'')
   \<and> (\<exists>s'. Setup ''RS'' (interruptedWorld ''RS'') = Inr s' \<and> inRecoveryMap s' ''D'' = Some True)"
proof -
  have up: "dbUp (interruptedWorld ''RS'')" by (simp add: ex_defs)
  have mem: "\<exists>u \<in> set (wh_uploads (interruptedWorld ''RS'')).
               upr_destination_id u = ''D'' \<and> upr_destination_type u = ''RS''
               \<and> (upr_status u = ExportingDataState \<or> upr_status u = ExportingDataFailedState)"
    by (simp add: ex_defs)
  from Setup_records_interrupted_destinations_of_RS [OF up, of "''RS''"]
  obtain s' where run: "Setup ''RS'' (interruptedWorld ''RS'') = Inr s'"
    and rec: "\<forall>d. inRecoveryMap s' d =
                (if \<exists>u \<in> set (wh_uploads (interruptedWorld ''RS'')).
                      upr_destination_id u = d \<and> upr_destination_type u = ''RS''
                      \<and> (upr_status u = ExportingDataState
                         \<or> upr_status u = ExportingDataFailedState)
                 then Some True else inRecoveryMap (interruptedWorld ''RS'') d)"
    by auto
  from rec mem have "inRecoveryMap s' ''D'' = Some True" by presburger
  with up run show ?thesis by blast
qed

text \<open>
  C7 as stated fails for a BigQuery router: the upload of destination D is in
  ExportingData, and after setup D is not in the recovery set.
\<close>

theorem Setup_every_destType_counterexample:
  "(case Setup ''BQ'' (interruptedWorld ''BQ'') of
      Inl e \<Rightarrow> Some True | Inr s' \<Rightarrow> inRecoveryMap s' ''D'') = None
   \<and> map upr_destination_id (wh_uploads (interruptedWorld ''BQ'')) = [''D'']
   \<and> map upr_destination_type (wh_uploads (interruptedWorld ''BQ'')) = [''BQ'']
   \<and> map upr_status (wh_uploads (interruptedWorld ''BQ'')) = [ExportingDataState]"
  by (simp add: Setup_def setInterruptedDestinations_def crashRecoverWarehouses_def ex_defs)

subsection \<open>A batch in the hands of a worker\<close>

lemma proj_append [simp]:
  "ranJobs (xs @ ys) = ranJobs xs @ ranJobs ys"
  "deliveryRecorded (xs @ ys) = deliveryRecorded xs @ deliveryRecorded ys"
  "failuresCounted (xs @ ys) = failuresCounted xs @ failuresCounted ys"
  "successfulUploads (xs @ ys) = successfulUploads xs @ successfulUploads ys"
  by (simp_all add: ranJobs_def deliveryRecorded_def failuresCounted_def successfulUploads_def)

lemma proj_Nil [simp]:
  "ranJobs [] = []" "deliveryRecorded [] = []" "failuresCounted [] = []" "successfulUploads [] = []"
  by (simp_all add: ranJobs_def deliveryRecorded_def failuresCounted_def successfulUploads_def)

lemma proj_jobCalls [simp]:
  "ranJobs (jobCalls job failed u) = [(job, failed)]"
  "deliveryRecorded (jobCalls job failed u) = [dst_ID (Destination (job_warehouse job))]"
  "failuresCounted (jobCalls job failed u)
     = (if failed then [(dst_ID (Destination (job_warehouse job)), 1)] else [])"
  "successfulUploads (jobCalls job failed u) = (if failed then [] else [job_warehouse job])"
  by (simp_all add: ranJobs_def deliveryRecorded_def failuresCounted_def successfulUploads_def
      jobCalls_def)

lemma batchLog_prefix:
  "batchLog jobs cs \<Longrightarrow> map fst (ranJobs cs) = take (length (ranJobs cs)) jobs"
  by (induction rule: batchLog.induct) simp_all

lemma batchLog_earlier_succeeded:
  "batchLog jobs cs \<Longrightarrow> \<forall>x \<in> set (butlast (ranJobs cs)). \<not> snd x"
  by (induction rule: batchLog.induct) auto

lemma batchLog_nonempty:
  "batchLog jobs cs \<Longrightarrow> jobs \<noteq> [] \<Longrightarrow> ranJobs cs \<noteq> []"
  by (induction rule: batchLog.induct) auto

lemma batchLog_length: "batchLog jobs cs \<Longrightarrow> length (ranJobs cs) \<le> length jobs"
  by (induction rule: batchLog.induct) auto

lemma batchLog_skipped:
  "batchLog jobs cs \<Longrightarrow> length (ranJobs cs) < length jobs \<Longrightarrow> snd (last (ranJobs cs))"
  by (induction rule: batchLog.induct) (auto dest: batchLog_nonempty)

lemma batchLog_delivery:
  "batchLog jobs cs \<Longrightarrow>
     deliveryRecorded cs = map (\<lambda>x. dst_ID (Destination (job_warehouse (fst x)))) (ranJobs cs)"
  by (induction rule: batchLog.induct) simp_all

lemma batchLog_failures:
  "batchLog jobs cs \<Longrightarrow>
     failuresCounted cs
       = map (\<lambda>x. (dst_ID (Destination (job_warehouse (fst x))), 1)) (filter snd (ranJobs cs))"
  by (induction rule: batchLog.induct) simp_all

lemma batchLog_successes:
  "batchLog jobs cs \<Longrightarrow>
     successfulUploads cs = map (\<lambda>x. job_warehouse (fst x)) (filter (\<lambda>x. \<not> snd x) (ranJobs cs))"
  by (induction rule: batchLog.induct) simp_all

lemma runJobs_batchLog:
  assumes pres: "\<And>job s. calls (snd (run job s)) = calls s
                          \<and> length (store (snd (run job s))) = length (store s)"
    and ptr: "\<forall>job \<in> set jobs. job_upload job < length (store s)"
  shows "\<exists>s' new. runJobs run jobs s = Inr s' \<and> calls s' = calls s @ new \<and> batchLog jobs new
           \<and> length (store s') = length (store s)"
  using ptr
proof (induction jobs arbitrary: s)
  case Nil
  then show ?case by (simp add: batch_done)
next
  case (Cons job jobs)
  obtain failed s1 where r: "run job s = (failed, s1)" by (cases "run job s")
  with pres [of job s] have c1: "calls s1 = calls s" and l1: "length (store s1) = length (store s)"
    by simp_all
  from Cons.prems l1 have d: "deref s1 (job_upload job) = Some (store s1 ! job_upload job)"
    by (simp add: deref_def)
  let ?u = "store s1 ! job_upload job"
  show ?case
  proof (cases failed)
    case True
    have "runJobs run (job # jobs) s
            = Inr (logCall (CountCall ''failed_uploads'' (dst_ID (Destination (job_warehouse job))) 1)
                    (logCall (RecordDeliveryStatusCall (dst_ID (Destination (job_warehouse job))) (up_ID ?u))
                      (logCall (RunCall job failed) s1)))"
      using r d True by (simp add: Let_def)
    moreover have "batchLog (job # jobs) (jobCalls job True (up_ID ?u))" by (rule batch_failed)
    ultimately show ?thesis
      using True c1 l1 by (auto simp: logCall_def jobCalls_def)
  next
    case False
    let ?s2 = "logCall (CountCall ''load_staging_files_into_warehouse''
                 (dst_ID (Destination (job_warehouse job))) (length (job_stagingFiles job)))
                (logCall (OnSuccessfulUploadCall (job_warehouse job))
                  (logCall (RecordDeliveryStatusCall (dst_ID (Destination (job_warehouse job))) (up_ID ?u))
                    (logCall (RunCall job failed) s1)))"
    have step: "runJobs run (job # jobs) s = runJobs run jobs ?s2"
      using r d False by (simp add: Let_def)
    have "\<forall>j \<in> set jobs. job_upload j < length (store ?s2)"
      using Cons.prems l1 by (simp add: logCall_def)
    from Cons.IH [OF this]
    obtain s' new where run': "runJobs run jobs ?s2 = Inr s'"
      and cs: "calls s' = calls ?s2 @ new" and bl: "batchLog jobs new"
      and len: "length (store s') = length (store ?s2)" by blast
    have "batchLog (job # jobs) (jobCalls job False (up_ID ?u) @ new)"
      using bl by (rule batch_next)
    moreover have "calls s' = calls s @ jobCalls job False (up_ID ?u) @ new"
      using cs c1 False by (simp add: logCall_def jobCalls_def)
    moreover have "length (store s') = length (store s)"
      using len l1 by (simp add: logCall_def)
    ultimately show ?thesis using step run'
      by (intro exI [of _ s'] exI [of _ "jobCalls job False (up_ID ?u) @ new"]) simp
  qed
qed

text \<open>
  C5. A worker that has a free slot runs the jobs of a non-empty batch in batch order. The
  jobs that ran are a prefix of the batch; every job before the last one that ran
  succeeded, and when a job of the batch did not run, the last one that ran failed: the
  first failure stops the batch. The delivery status is recorded for every job that ran,
  the failure counter is incremented once for each failed job (the last, if any), and
  \<^verbatim>\<open>onSuccessfulUpload\<close> is called for the successful jobs only. The run of a job is
  any function that leaves the log and the size of the store alone.
\<close>

theorem handleUploadJobs_stops_at_first_failure:
  assumes pres: "\<And>job s. calls (snd (run job s)) = calls s
                          \<and> length (store (snd (run job s))) = length (store s)"
    and ptr: "\<forall>job \<in> set jobs. job_upload job < length (store s)"
    and slot: "activeWorkerCount s < noOfWorkers cfg"
    and ne: "jobs \<noteq> []"
  shows "\<exists>s' new. handleUploadJobs cfg run jobs s = Inr s' \<and> calls s' = calls s @ new
           \<and> ranJobs new \<noteq> []
           \<and> map fst (ranJobs new) = take (length (ranJobs new)) jobs
           \<and> (\<forall>x \<in> set (butlast (ranJobs new)). \<not> snd x)
           \<and> (length (ranJobs new) < length jobs \<longrightarrow> snd (last (ranJobs new)))
           \<and> deliveryRecorded new
               = map (\<lambda>x. dst_ID (Destination (job_warehouse (fst x)))) (ranJobs new)
           \<and> failuresCounted new
               = map (\<lambda>x. (dst_ID (Destination (job_warehouse (fst x))), 1)) (filter snd (ranJobs new))
           \<and> successfulUploads new
               = map (\<lambda>x. job_warehouse (fst x)) (filter (\<lambda>x. \<not> snd x) (ranJobs new))"
proof -
  let ?s1 = "s\<lparr>activeWorkerCount := activeWorkerCount s + 1\<rparr>"
  have "\<forall>job \<in> set jobs. job_upload job < length (store ?s1)" using ptr by simp
  from runJobs_batchLog [of run jobs ?s1, OF pres this]
  obtain s2 new where r: "runJobs run jobs ?s1 = Inr s2" and cs: "calls s2 = calls ?s1 @ new"
    and bl: "batchLog jobs new" by blast
  have h: "handleUploadJobs cfg run jobs s = Inr (s2\<lparr>activeWorkerCount := activeWorkerCount s2 - 1\<rparr>)"
    using slot ne r by (simp add: handleUploadJobs_def)
  have c: "calls (s2\<lparr>activeWorkerCount := activeWorkerCount s2 - 1\<rparr>) = calls s @ new"
    using cs by simp
  show ?thesis
    using h c batchLog_nonempty [OF bl ne] batchLog_prefix [OF bl]
      batchLog_earlier_succeeded [OF bl] batchLog_skipped [OF bl] batchLog_delivery [OF bl]
      batchLog_failures [OF bl] batchLog_successes [OF bl]
    by blast
qed


text \<open>
  Three jobs, the second fails: two jobs ran, two delivery statuses, one failure, one
  successful upload.
\<close>

theorem handleUploadJobs_stops_at_first_failure_witness:
  "\<exists>s'. handleUploadJobs exConfig exRun exBatch batchWorld = Inr s'
      \<and> map (\<lambda>x. (job_upload (fst x), snd x)) (ranJobs (calls s')) = [(0, False), (1, True)]
      \<and> deliveryRecorded (calls s') = [''D'', ''D'']
      \<and> failuresCounted (calls s') = [(''D'', 1)]
      \<and> successfulUploads (calls s') = [exWarehouse ''POSTGRES'']"
proof -
  have pres: "\<And>job s. calls (snd (exRun job s)) = calls s
                       \<and> length (store (snd (exRun job s))) = length (store s)"
    by (simp add: exRun_def)
  have ptr: "\<forall>job \<in> set exBatch. job_upload job < length (store batchWorld)"
    by (simp add: exBatch_def batchWorld_def)
  have slot: "activeWorkerCount batchWorld < noOfWorkers exConfig"
    by (simp add: batchWorld_def exWorld_def exConfig_def)
  have ne: "exBatch \<noteq> []" by (simp add: exBatch_def)
  from handleUploadJobs_stops_at_first_failure [of exRun exBatch batchWorld exConfig,
      OF pres ptr slot ne]
  obtain s' new where h: "handleUploadJobs exConfig exRun exBatch batchWorld = Inr s'"
    and c: "calls s' = calls batchWorld @ new" by blast
  have e: "handleUploadJobs exConfig exRun exBatch batchWorld
            = Inr (batchWorld\<lparr>calls :=
                jobCalls (exBatch ! 0) False 11 @ jobCalls (exBatch ! 1) True 12\<rparr>)"
    by (simp add: handleUploadJobs_def exRun_def exBatch_def batchWorld_def exWorld_def
        exConfig_def deref_def logCall_def jobCalls_def zeroUploadT_def Let_def)
  from h e have "calls s' = jobCalls (exBatch ! 0) False 11 @ jobCalls (exBatch ! 1) True 12"
    by auto
  then have "map (\<lambda>x. (job_upload (fst x), snd x)) (ranJobs (calls s')) = [(0, False), (1, True)]
      \<and> deliveryRecorded (calls s') = [''D'', ''D'']
      \<and> failuresCounted (calls s') = [(''D'', 1)]
      \<and> successfulUploads (calls s') = [exWarehouse ''POSTGRES'']"
    by (simp add: exBatch_def exWarehouse_def exDestination_def)
  with h show ?thesis by (intro exI [of _ s']) simp
qed


subsection \<open>The cap on active workers\<close>

lemma count_update_in:
  "i < length xs \<Longrightarrow> xs ! i \<noteq> Engaged \<Longrightarrow>
     length (filter (\<lambda>ph. ph = Engaged) (xs[i := Engaged]))
       = Suc (length (filter (\<lambda>ph. ph = Engaged) xs))"
proof (induction xs arbitrary: i)
  case Nil
  then show ?case by simp
next
  case (Cons x xs)
  then show ?case by (cases i) auto
qed

lemma count_update_out:
  "i < length xs \<Longrightarrow> xs ! i = Engaged \<Longrightarrow> y \<noteq> Engaged \<Longrightarrow>
     Suc (length (filter (\<lambda>ph. ph = Engaged) (xs[i := y])))
       = length (filter (\<lambda>ph. ph = Engaged) xs)"
proof (induction xs arbitrary: i)
  case Nil
  then show ?case by simp
next
  case (Cons x xs)
  then show ?case by (cases i) auto
qed

lemma count_update_same:
  "i < length xs \<Longrightarrow> xs ! i \<noteq> Engaged \<Longrightarrow> y \<noteq> Engaged \<Longrightarrow>
     length (filter (\<lambda>ph. ph = Engaged) (xs[i := y]))
       = length (filter (\<lambda>ph. ph = Engaged) xs)"
proof (induction xs arbitrary: i)
  case Nil
  then show ?case by simp
next
  case (Cons x xs)
  then show ?case by (cases i) auto
qed

lemma poolStep_inv:
  assumes "poolInv cfg p" "poolStep cfg act p = Some q"
  shows "poolInv cfg q"
proof (cases act)
  case Spawn
  with assms show ?thesis by (auto simp: poolStep_def poolInv_def engaged_def)
next
  case (Receive i)
  with assms show ?thesis
    by (auto simp: poolStep_def poolInv_def engaged_def count_update_same split: if_splits)
next
  case (TryAdmit i)
  with assms show ?thesis
    by (auto simp: poolStep_def poolInv_def engaged_def count_update_in split: if_splits)
next
  case (Finish i)
  with assms have i: "i < length (phases p)" "phases p ! i = Engaged"
    and q: "q = p\<lparr>pool_activeWorkerCount := pool_activeWorkerCount p - 1,
                  phases := (phases p)[i := Idle]\<rparr>"
    by (auto simp: poolStep_def split: if_splits)
  from count_update_out [OF i, of Idle]
  have "Suc (engaged q) = engaged p" using q by (simp add: engaged_def)
  with assms(1) q show ?thesis by (auto simp: poolInv_def)
qed

lemma poolRun_inv:
  "poolInv cfg p \<Longrightarrow> poolRun cfg acts p = Some q \<Longrightarrow> poolInv cfg q"
proof (induction acts arbitrary: p)
  case Nil
  then show ?case by simp
next
  case (Cons act acts)
  then show ?case by (auto split: option.splits dest: poolStep_inv)
qed

text \<open>
  C6. With a limit that is not negative, in every state that the workers reach from the
  start, whatever the order of their locked sections, \<^verbatim>\<open>activeWorkerCount\<close> is at most
  \<^verbatim>\<open>noOfWorkers\<close> and equals the number of workers that are handling a batch. A worker
  in the admission loop increments the counter only when it reads a value strictly below
  the limit, and otherwise leaves everything as it is and retries; a worker decrements
  it when it finishes its batch, and only then.
\<close>

theorem activeWorkerCount_at_most_noOfWorkers:
  assumes "0 \<le> noOfWorkers cfg" and "poolRun cfg acts initialPool = Some p"
  shows "pool_activeWorkerCount p \<le> noOfWorkers cfg
         \<and> pool_activeWorkerCount p = int (engaged p)
         \<and> (\<forall>i q. poolStep cfg (TryAdmit i) p = Some q \<longrightarrow>
               (if pool_activeWorkerCount p < noOfWorkers cfg
                then pool_activeWorkerCount q = pool_activeWorkerCount p + 1
                     \<and> phases q ! i = Engaged
                else q = p))
         \<and> (\<forall>i q. poolStep cfg (Finish i) p = Some q \<longrightarrow>
               phases p ! i = Engaged \<and> phases q ! i = Idle
               \<and> pool_activeWorkerCount q = pool_activeWorkerCount p - 1)"
proof -
  have "poolInv cfg initialPool"
    using assms(1) by (simp add: poolInv_def initialPool_def engaged_def)
  from poolRun_inv [OF this assms(2)] have "poolInv cfg p" .
  then show ?thesis
    by (auto simp: poolInv_def poolStep_def split: if_splits)
qed

text \<open>Two workers and one slot: the first is admitted, the second keeps waiting.\<close>

theorem activeWorkerCount_at_most_noOfWorkers_witness:
  "0 \<le> noOfWorkers (exConfig\<lparr>noOfWorkers := 1\<rparr>)
   \<and> poolRun (exConfig\<lparr>noOfWorkers := 1\<rparr>)
        [Spawn, Spawn, Receive 0, Receive 1, TryAdmit 0, TryAdmit 1] initialPool
       = Some \<lparr>pool_activeWorkerCount = 1, phases = [Engaged, Admission]\<rparr>
   \<and> pool_activeWorkerCount \<lparr>pool_activeWorkerCount = 1, phases = [Engaged, Admission]\<rparr>
       \<le> noOfWorkers (exConfig\<lparr>noOfWorkers := 1\<rparr>)"
proof -
  have h1: "0 \<le> noOfWorkers (exConfig\<lparr>noOfWorkers := 1\<rparr>)" by (simp add: exConfig_def)
  have h2: "poolRun (exConfig\<lparr>noOfWorkers := 1\<rparr>)
        [Spawn, Spawn, Receive 0, Receive 1, TryAdmit 0, TryAdmit 1] initialPool
       = Some \<lparr>pool_activeWorkerCount = 1, phases = [Engaged, Admission]\<rparr>"
    by (simp add: poolStep_def initialPool_def exConfig_def)
  from activeWorkerCount_at_most_noOfWorkers [OF h1 h2] h1 h2 show ?thesis by blast
qed

subsection \<open>The loops in closed form\<close>

lemma chunksOf_Nil [simp]: "chunksOf n [] = []"
  by (simp add: chunksOf.simps)

lemma chunksOf_step:
  "0 < n \<Longrightarrow> xs \<noteq> [] \<Longrightarrow> chunksOf n xs = take n xs # chunksOf n (drop n xs)"
  by (subst chunksOf.simps) simp

lemma concat_chunksOf: "0 < n \<Longrightarrow> concat (chunksOf n xs) = xs"
proof (induction n xs rule: chunksOf.induct)
  case (1 n xs)
  then show ?case by (cases "xs = []") (simp_all add: chunksOf_step)
qed

lemma chunksOf_nonempty: "c \<in> set (chunksOf n xs) \<Longrightarrow> c \<noteq> [] \<and> length c \<le> n"
proof (induction n xs rule: chunksOf.induct)
  case (1 n xs)
  show ?case
  proof (cases "n = 0 \<or> xs = []")
    case True
    with "1.prems" show ?thesis by (auto simp: chunksOf.simps)
  next
    case False
    with "1.prems" "1.IH" show ?thesis by (auto simp: chunksOf_step)
  qed
qed

lemma chunksOf_full: "c \<in> set (butlast (chunksOf n xs)) \<Longrightarrow> length c = n"
proof (induction n xs rule: chunksOf.induct)
  case (1 n xs)
  show ?case
  proof (cases "n = 0 \<or> xs = []")
    case True
    with "1.prems" show ?thesis by (auto simp: chunksOf.simps)
  next
    case False
    then have st: "chunksOf n xs = take n xs # chunksOf n (drop n xs)" by (simp add: chunksOf_step)
    show ?thesis
    proof (cases "drop n xs = []")
      case True
      with st "1.prems" show ?thesis by simp
    next
      case dn: False
      then have "chunksOf n (drop n xs) \<noteq> []" using False by (simp add: chunksOf_step)
      with st "1.prems" have "c = take n xs \<or> c \<in> set (butlast (chunksOf n (drop n xs)))"
        by auto
      then show ?thesis
      proof
        assume "c = take n xs"
        with dn show ?thesis by simp
      next
        assume "c \<in> set (butlast (chunksOf n (drop n xs)))"
        with "1.IH" False show ?thesis by simp
      qed
    qed
  qed
qed

lemma freshLoop_createUploads:
  assumes "0 < stagingFilesBatchSize cfg" "0 \<le> cnt" "cnt < int (length fs)"
  shows "freshLoop cfg e w fs cnt jobs s
           = createUploads e w (chunksOf (nat (stagingFilesBatchSize cfg)) (drop (nat cnt) fs)) jobs s"
  using assms
proof (induction cfg e w fs cnt jobs s rule: freshLoop.induct)
  case (1 cfg e w fs cnt jobs s)
  let ?bs = "stagingFilesBatchSize cfg"
  let ?n = "nat ?bs"
  let ?rest = "drop (nat cnt) fs"
  have ne: "?rest \<noteq> []" using "1.prems" by simp
  have n0: "0 < ?n" using "1.prems" by simp
  have ch: "chunksOf ?n ?rest = take ?n ?rest # chunksOf ?n (drop ?n ?rest)"
    using chunksOf_step [OF n0 ne] .
  show ?case
  proof (cases "cnt + ?bs \<ge> int (length fs)")
    case True
    have sl: "slice fs cnt (int (length fs)) = Inr (take ?n ?rest)"
      using "1.prems" True by (simp add: slice_def) 
    have dr: "drop ?n ?rest = []" using True "1.prems" by simp
    show ?thesis
      using True sl dr ch
      by (subst freshLoop.simps) (simp split: sum.splits prod.splits)
  next
    case False
    have sl: "slice fs cnt (cnt + ?bs) = Inr (take ?n ?rest)"
      using "1.prems" False by (simp add: slice_def nat_add_distrib)
    have dr: "drop ?n ?rest = drop (nat (cnt + ?bs)) fs"
      using "1.prems" by (simp add: nat_add_distrib add.commute)
    show ?thesis
    proof (cases "initUpload e w (take ?n ?rest) s")
      case (Inl stp)
      then show ?thesis using False sl ch by (subst freshLoop.simps) simp
    next
      case (Inr x)
      obtain upload s1 where x: "x = (upload, s1)" by (cases x)
      show ?thesis
      proof (cases "managerNew_ok e (destType s1)")
        case mf: False
        then show ?thesis using False sl ch Inr x by (subst freshLoop.simps) simp
      next
        case mt: True
        have "freshLoop cfg e w fs (cnt + ?bs)
                (jobs @ [\<lparr>job_upload = length (store s1), job_stagingFiles = take ?n ?rest,
                          job_warehouse = w\<rparr>]) (s1\<lparr>store := store s1 @ [upload]\<rparr>)
              = createUploads e w (chunksOf ?n (drop (nat (cnt + ?bs)) fs))
                  (jobs @ [\<lparr>job_upload = length (store s1), job_stagingFiles = take ?n ?rest,
                            job_warehouse = w\<rparr>]) (s1\<lparr>store := store s1 @ [upload]\<rparr>)"
          using "1.IH" [OF _ _ x [symmetric]] sl Inr mt False "1.prems" by simp
        then show ?thesis
          using False sl ch Inr x mt dr by (subst freshLoop.simps) simp
      qed
    qed
  qed
qed


lemma initUpload_closed:
  assumes "dbUp s" "c \<noteq> []"
  shows "\<exists>u row.
           initUpload e w c s
             = Inr (u, logCall (InitUploadCall w (sf_ID (hd c)) (sf_ID (last c)))
                         (s\<lparr>wh_uploads := wh_uploads s @ [row],
                           wh_uploads_id_seq := wh_uploads_id_seq s + 1\<rparr>))
           \<and> up_StartStagingFileID u = sf_ID (hd c) \<and> up_EndStagingFileID u = sf_ID (last c)
           \<and> up_Status u = WaitingState \<and> up_ID u = upr_id row
           \<and> upr_id row = wh_uploads_id_seq s + 1
           \<and> upr_start_staging_file_id row = sf_ID (hd c)
           \<and> upr_end_staging_file_id row = sf_ID (last c)
           \<and> upr_status row = WaitingState
           \<and> upr_source_id row = src_ID (Source w)
           \<and> upr_destination_id row = dst_ID (Destination w)
           \<and> upr_destination_type row = destType s"
proof -
  have ite: "\<And>x z :: int. (if x \<noteq> z then x else z) = x" by simp
  show ?thesis
    using assms
    apply (simp add: initUpload_def Let_def zeroUploadT_def ite)
    apply (rule exI, rule conjI, rule refl)
    apply simp
    done
qed

lemma createUploads_closed:
  assumes "dbUp s" "managerNew_ok e (destType s)" "\<forall>c \<in> set cs. c \<noteq> []"
  shows "\<exists>newJobs ups rows.
           createUploads e w cs jobs s
             = Inr (jobs @ newJobs,
                    s\<lparr>wh_uploads := wh_uploads s @ rows,
                      wh_uploads_id_seq := wh_uploads_id_seq s + int (length cs),
                      store := store s @ ups,
                      calls := calls s @ map (\<lambda>c. InitUploadCall w (sf_ID (hd c)) (sf_ID (last c))) cs\<rparr>)
           \<and> map job_stagingFiles newJobs = cs
           \<and> map job_upload newJobs = [length (store s)..<length (store s) + length cs]
           \<and> (\<forall>j \<in> set newJobs. job_warehouse j = w)
           \<and> map (\<lambda>u. (up_StartStagingFileID u, up_EndStagingFileID u, up_Status u)) ups
               = map (\<lambda>c. (sf_ID (hd c), sf_ID (last c), WaitingState)) cs
           \<and> map (\<lambda>r. (upr_start_staging_file_id r, upr_end_staging_file_id r, upr_status r)) rows
               = map (\<lambda>c. (sf_ID (hd c), sf_ID (last c), WaitingState)) cs
           \<and> map up_ID ups = map upr_id rows
           \<and> (\<forall>r \<in> set rows. upr_source_id r = src_ID (Source w)
                  \<and> upr_destination_id r = dst_ID (Destination w)
                  \<and> upr_destination_type r = destType s)"
  using assms
proof (induction cs arbitrary: jobs s)
  case Nil
  show ?case
    by (intro exI [of _ "[]"]) simp
next
  case (Cons c cs)
  from Cons.prems have cne: "c \<noteq> []" and rest: "\<forall>c \<in> set cs. c \<noteq> []" by simp_all
  from initUpload_closed [OF Cons.prems(1) cne, of e w]
  obtain u row where iu: "initUpload e w c s
             = Inr (u, logCall (InitUploadCall w (sf_ID (hd c)) (sf_ID (last c)))
                         (s\<lparr>wh_uploads := wh_uploads s @ [row],
                           wh_uploads_id_seq := wh_uploads_id_seq s + 1\<rparr>))"
    and u: "up_StartStagingFileID u = sf_ID (hd c)" "up_EndStagingFileID u = sf_ID (last c)"
           "up_Status u = WaitingState" "up_ID u = upr_id row"
    and r: "upr_start_staging_file_id row = sf_ID (hd c)"
           "upr_end_staging_file_id row = sf_ID (last c)"
           "upr_status row = WaitingState"
           "upr_source_id row = src_ID (Source w)"
           "upr_destination_id row = dst_ID (Destination w)"
           "upr_destination_type row = destType s"
    by blast
  let ?s1 = "logCall (InitUploadCall w (sf_ID (hd c)) (sf_ID (last c)))
               (s\<lparr>wh_uploads := wh_uploads s @ [row],
                 wh_uploads_id_seq := wh_uploads_id_seq s + 1\<rparr>)"
  let ?s2 = "?s1\<lparr>store := store ?s1 @ [u]\<rparr>"
  let ?job = "\<lparr>job_upload = length (store ?s1), job_stagingFiles = c, job_warehouse = w\<rparr>"
  have up: "dbUp ?s2" "managerNew_ok e (destType ?s2)"
    using Cons.prems by (simp_all add: logCall_def)
  from Cons.IH [OF up rest, of "jobs @ [?job]"]
  obtain newJobs ups rows where
    cu: "createUploads e w cs (jobs @ [?job]) ?s2
           = Inr ((jobs @ [?job]) @ newJobs,
                  ?s2\<lparr>wh_uploads := wh_uploads ?s2 @ rows,
                      wh_uploads_id_seq := wh_uploads_id_seq ?s2 + int (length cs),
                      store := store ?s2 @ ups,
                      calls := calls ?s2 @ map (\<lambda>c. InitUploadCall w (sf_ID (hd c)) (sf_ID (last c))) cs\<rparr>)"
    and j1: "map job_stagingFiles newJobs = cs"
    and j2: "map job_upload newJobs = [length (store ?s2)..<length (store ?s2) + length cs]"
    and j3: "\<forall>j \<in> set newJobs. job_warehouse j = w"
    and u1: "map (\<lambda>u. (up_StartStagingFileID u, up_EndStagingFileID u, up_Status u)) ups
               = map (\<lambda>c. (sf_ID (hd c), sf_ID (last c), WaitingState)) cs"
    and r1: "map (\<lambda>r. (upr_start_staging_file_id r, upr_end_staging_file_id r, upr_status r)) rows
               = map (\<lambda>c. (sf_ID (hd c), sf_ID (last c), WaitingState)) cs"
    and i1: "map up_ID ups = map upr_id rows"
    and f1: "\<forall>r \<in> set rows. upr_source_id r = src_ID (Source w)
                  \<and> upr_destination_id r = dst_ID (Destination w)
                  \<and> upr_destination_type r = destType ?s2"
    by blast
  have mgr: "managerNew_ok e (destType ?s1)" using Cons.prems by (simp add: logCall_def)
  have run: "createUploads e w (c # cs) jobs s = createUploads e w cs (jobs @ [?job]) ?s2"
    using iu mgr by simp
  have st: "?s2\<lparr>wh_uploads := wh_uploads ?s2 @ rows,
                wh_uploads_id_seq := wh_uploads_id_seq ?s2 + int (length cs),
                store := store ?s2 @ ups,
                calls := calls ?s2 @ map (\<lambda>c. InitUploadCall w (sf_ID (hd c)) (sf_ID (last c))) cs\<rparr>
          = s\<lparr>wh_uploads := wh_uploads s @ (row # rows),
              wh_uploads_id_seq := wh_uploads_id_seq s + int (length (c # cs)),
              store := store s @ (u # ups),
              calls := calls s @ map (\<lambda>c. InitUploadCall w (sf_ID (hd c)) (sf_ID (last c))) (c # cs)\<rparr>"
    by (simp add: logCall_def)
  have up2: "map job_upload (?job # newJobs)
               = [length (store s)..<length (store s) + length (c # cs)]"
    using j2 by (simp add: logCall_def upt_rec)
  show ?case
    apply (intro exI [of _ "?job # newJobs"] exI [of _ "u # ups"] exI [of _ "row # rows"])
    using run cu st j1 up2 j3 u1 r1 i1 f1 u r
    apply (simp add: logCall_def)
    done
qed

lemma pendingLoop_closed:
  assumes "takeWhile (\<lambda>u. canStartPendingUpload cfg e u w) us \<noteq> []
             \<longrightarrow> dbUp s \<and> managerNew_ok e (destType s)"
  shows "pendingLoop cfg e w a us jobs s =
     Inr (jobs @ map (\<lambda>u. \<lparr>job_upload = a,
                           job_stagingFiles = selectStagingFiles w (up_StartStagingFileID u)
                              (up_EndStagingFileID u) (wh_staging_files s),
                           job_warehouse = w\<rparr>)
                   (takeWhile (\<lambda>u. canStartPendingUpload cfg e u w) us),
          pendingLoopState cfg e w a us s)"
  using assms
proof (induction us arbitrary: jobs s)
  case Nil
  then show ?case by (simp add: pendingLoopState_def)
next
  case (Cons u us)
  show ?case
  proof (cases "canStartPendingUpload cfg e u w")
    case False
    then show ?thesis
      by (simp add: pendingLoopState_def setDestInProgress_def)
  next
    case True
    let ?s2 = "logCall (GetStagingFilesCall w (up_StartStagingFileID u) (up_EndStagingFileID u))
                 (s\<lparr>store := (store s)[a := u]\<rparr>)"
    from True Cons.prems have ok: "dbUp s" "managerNew_ok e (destType s)" by simp_all
    have up: "takeWhile (\<lambda>u. canStartPendingUpload cfg e u w) us \<noteq> []
                \<longrightarrow> dbUp ?s2 \<and> managerNew_ok e (destType ?s2)"
      using ok by (simp add: logCall_def)
    have st: "pendingLoopState cfg e w a us ?s2 = pendingLoopState cfg e w a (u # us) s"
      using True by (cases us) (auto simp: pendingLoopState_def logCall_def Let_def)
    show ?thesis
      using True ok Cons.IH [OF up] st
      by (simp add: getStagingFiles_def logCall_def)
  qed
qed

lemma pendingLoop_Inr_D:
  assumes "pendingLoop cfg e w a us jobs s = Inr r"
    and "takeWhile (\<lambda>u. canStartPendingUpload cfg e u w) us \<noteq> []"
  shows "dbUp s \<and> managerNew_ok e (destType s)"
proof (cases us)
  case Nil
  with assms show ?thesis by simp
next
  case (Cons u rest)
  with assms(2) have "canStartPendingUpload cfg e u w" by (auto split: if_splits)
  with assms(1) Cons show ?thesis
    by (auto simp: getStagingFiles_def logCall_def Let_def split: if_splits sum.splits)
qed

lemma freshLoop_Inr_D:
  assumes "freshLoop cfg e w fs 0 jobs s = Inr r" and "fs \<noteq> []"
  shows "0 < stagingFilesBatchSize cfg \<and> dbUp s \<and> managerNew_ok e (destType s)"
proof -
  have "\<not> (stagingFilesBatchSize cfg \<le> 0 \<or> \<not> dbUp s \<or> \<not> managerNew_ok e (destType s))"
  proof
    assume bad: "stagingFilesBatchSize cfg \<le> 0 \<or> \<not> dbUp s \<or> \<not> managerNew_ok e (destType s)"
    have "\<exists>stp. freshLoop cfg e w fs 0 jobs s = Inl stp"
      using bad assms(2)
      by (subst freshLoop.simps)
        (auto simp: slice_def initUpload_def logCall_def Let_def split: sum.splits if_splits)
    with assms(1) show False by simp
  qed
  then show ?thesis by auto
qed

lemma processWarehouse_proceeds:
  assumes "\<not> isDestInProgress w s"
    and "inRecoveryMap s (dst_ID (Destination w)) \<noteq> None
           \<longrightarrow> managerNew_ok e (destType s) \<and> \<not> crashRecover_err e w"
  shows "processWarehouse cfg e w s = uploadsPath cfg e w (afterRecovery w s)"
  using assms
  by (auto simp: processWarehouse_def afterRecovery_def setDestInProgress_def logCall_def Let_def)

lemma afterRecovery_fields [simp]:
  "dbUp (afterRecovery w s) = dbUp s"
  "destType (afterRecovery w s) = destType s"
  "wh_uploads (afterRecovery w s) = wh_uploads s"
  "wh_staging_files (afterRecovery w s) = wh_staging_files s"
  "wh_uploads_id_seq (afterRecovery w s) = wh_uploads_id_seq s"
  "workerChannelMap (afterRecovery w s) = workerChannelMap s"
  "lastExecMap (afterRecovery w s) = lastExecMap s"
  "store (afterRecovery w s) = store s"
  "inProgressMap (afterRecovery w s) = (inProgressMap s)(connectionString w \<mapsto> True)"
  "inRecoveryMap (afterRecovery w s) = (inRecoveryMap s)(dst_ID (Destination w) := None)"
  "calls (afterRecovery w s)
     = calls s @ (if inRecoveryMap s (dst_ID (Destination w)) \<noteq> None
                  then [CrashRecoverCall w] else [])"
  by (auto simp: afterRecovery_def setDestInProgress_def logCall_def)

lemma pendingRows_frame [simp]:
  "pendingRows w (afterRecovery w' s) = pendingRows w s"
  "pendingRows w (logCall c s) = pendingRows w s"
  by (simp_all add: pendingRows_def logCall_def)

lemma selectPending_frame [simp]:
  "selectPendingStagingFiles w (afterRecovery w' s) = selectPendingStagingFiles w s"
  "selectPendingStagingFiles w (logCall c s) = selectPendingStagingFiles w s"
  "selectPendingStagingFiles w (setLastExec e w' s) = selectPendingStagingFiles w s"
  by (simp_all add: selectPendingStagingFiles_def lastStagingFileID_def terminalUploads_def
      logCall_def setLastExec_def)

lemma canStartUpload_frame [simp]:
  "canStartUpload cfg e w (afterRecovery w' s) = canStartUpload cfg e w s"
  "canStartUpload cfg e w (logCall c s) = canStartUpload cfg e w s"
  by (simp_all add: canStartUpload_def uploadFrequencyExceeded_def logCall_def)

text \<open>
  Every way in which the part of the loop body from \<^verbatim>\<open>getPendingUploads\<close> on
  returns: the first pending upload is rejected; some pending uploads are admitted and
  enqueued; the frequency gate is closed; there is no pending staging file; new uploads
  are created and enqueued.
\<close>

lemma uploadsPath_InrE:
  assumes run: "uploadsPath cfg e w s = Inr s'"
  obtains
    (rejected) "dbUp s" "pendingRows w s \<noteq> []"
      "takeWhile (\<lambda>u. canStartPendingUpload cfg e u w) (map scanUpload (pendingRows w s)) = []"
      "s' = pendingLoopState cfg e w (length (store s)) (map scanUpload (pendingRows w s))
              ((logCall (GetPendingUploadsCall w) s)\<lparr>store := store s @ [zeroUploadT]\<rparr>)"
  | (retried) queue where "dbUp s" "managerNew_ok e (destType s)" "pendingRows w s \<noteq> []"
      "takeWhile (\<lambda>u. canStartPendingUpload cfg e u w) (map scanUpload (pendingRows w s)) \<noteq> []"
      "workerChannelMap s (workerIdentifier w) = Some queue" "length queue < 100"
      "s' = logCall (EnqueueCall w (length (takeWhile (\<lambda>u. canStartPendingUpload cfg e u w) (map scanUpload (pendingRows w s)))))
              ((pendingLoopState cfg e w (length (store s)) (map scanUpload (pendingRows w s))
                  ((logCall (GetPendingUploadsCall w) s)\<lparr>store := store s @ [zeroUploadT]\<rparr>))
               \<lparr>workerChannelMap := (workerChannelMap s)(workerIdentifier w \<mapsto> queue @
                  [map (\<lambda>u. \<lparr>job_upload = length (store s),
                              job_stagingFiles = selectStagingFiles w (up_StartStagingFileID u)
                                 (up_EndStagingFileID u) (wh_staging_files s),
                              job_warehouse = w\<rparr>)
                     (takeWhile (\<lambda>u. canStartPendingUpload cfg e u w) (map scanUpload (pendingRows w s)))])\<rparr>)"
  | (gated) "dbUp s" "pendingRows w s = []" "\<not> canStartUpload cfg e w s"
      "s' = setDestInProgress w False (logCall (GetPendingUploadsCall w) s)"
  | (nofiles) "dbUp s" "pendingRows w s = []" "canStartUpload cfg e w s"
      "selectPendingStagingFiles w s = []"
      "s' = setDestInProgress w False (logCall (GetPendingStagingFilesCall w)
              (setLastExec e w (logCall (GetPendingUploadsCall w) s)))"
  | (fresh) queue newJobs s2 where "dbUp s" "managerNew_ok e (destType s)"
      "pendingRows w s = []" "canStartUpload cfg e w s"
      "selectPendingStagingFiles w s \<noteq> []" "0 < stagingFilesBatchSize cfg"
      "createUploads e w (chunksOf (nat (stagingFilesBatchSize cfg)) (selectPendingStagingFiles w s)) []
         (logCall (GetPendingStagingFilesCall w) (setLastExec e w (logCall (GetPendingUploadsCall w) s)))
         = Inr (newJobs, s2)"
      "workerChannelMap s2 (workerIdentifier w) = Some queue" "length queue < 100"
      "s' = logCall (EnqueueCall w (length newJobs))
              (s2\<lparr>workerChannelMap := (workerChannelMap s2)(workerIdentifier w \<mapsto> queue @ [newJobs])\<rparr>)"
proof -
  from run have up: "dbUp s"
    by (auto simp: uploadsPath_def getPendingUploads_def split: if_splits)
  let ?s1 = "logCall (GetPendingUploadsCall w) s"
  let ?us = "map scanUpload (pendingRows w s)"
  show thesis
  proof (cases "pendingRows w s = []")
    case False
    let ?s0 = "?s1\<lparr>store := store ?s1 @ [zeroUploadT]\<rparr>"
    from run up False have pp: "pendingPath cfg e w ?us ?s1 = Inr s'"
      by (simp add: uploadsPath_def getPendingUploads_def)
    then obtain jobs st where pl: "pendingLoop cfg e w (length (store ?s1)) ?us [] ?s0 = Inr (jobs, st)"
      by (auto simp: pendingPath_def split: sum.splits)
    have ok: "takeWhile (\<lambda>u. canStartPendingUpload cfg e u w) ?us \<noteq> [] \<longrightarrow> dbUp ?s0 \<and> managerNew_ok e (destType ?s0)"
      using pendingLoop_Inr_D [OF pl] by blast
    from pendingLoop_closed [OF ok, of "length (store ?s1)" "[]"] pl
    have jobs: "jobs = map (\<lambda>u. \<lparr>job_upload = length (store ?s1),
                           job_stagingFiles = selectStagingFiles w (up_StartStagingFileID u)
                              (up_EndStagingFileID u) (wh_staging_files ?s0),
                           job_warehouse = w\<rparr>) (takeWhile (\<lambda>u. canStartPendingUpload cfg e u w) ?us)"
      and st: "st = pendingLoopState cfg e w (length (store ?s1)) ?us ?s0" by simp_all
    show ?thesis
    proof (cases "takeWhile (\<lambda>u. canStartPendingUpload cfg e u w) ?us = []")
      case True
      with pp pl jobs st have "s' = pendingLoopState cfg e w (length (store ?s1)) ?us ?s0"
        by (simp add: pendingPath_def)
      then show ?thesis using rejected up False True by (simp add: logCall_def)
    next
      case nonempty: False
      with pp pl jobs have enq: "enqueueUploadJobs jobs w st = Inr s'"
        by (simp add: pendingPath_def)
      have wcm: "workerChannelMap st = workerChannelMap s"
        using st by (simp add: pendingLoopState_def logCall_def Let_def)
      from enq wcm obtain queue where q: "workerChannelMap s (workerIdentifier w) = Some queue"
        "length queue < 100"
        and s': "s' = logCall (EnqueueCall w (length jobs))
                        (st\<lparr>workerChannelMap := (workerChannelMap s)(workerIdentifier w \<mapsto> queue @ [jobs])\<rparr>)"
        by (auto simp: enqueueUploadJobs_def split: option.splits if_splits)
      from ok nonempty have mgr: "managerNew_ok e (destType s)" by (simp add: logCall_def)
      show ?thesis
        using retried [OF up mgr False nonempty q] s' jobs st by (simp add: logCall_def)
    qed
  next
    case True
    from run up True have fp: "freshPath cfg e w ?s1 = Inr s'"
      by (simp add: uploadsPath_def getPendingUploads_def)
    show ?thesis
    proof (cases "canStartUpload cfg e w s")
      case False
      with fp have "s' = setDestInProgress w False ?s1" by (simp add: freshPath_def)
      then show ?thesis using gated up True False by simp
    next
      case can: True
      let ?s3 = "logCall (GetPendingStagingFilesCall w) (setLastExec e w ?s1)"
      let ?fs = "selectPendingStagingFiles w s"
      have up3: "dbUp (setLastExec e w ?s1)" using up by (simp add: setLastExec_def logCall_def)
      show ?thesis
      proof (cases "?fs = []")
        case nf: True
        with fp can up3 have "s' = setDestInProgress w False ?s3"
          by (simp add: freshPath_def getPendingStagingFiles_def)
        then show ?thesis using nofiles up True can nf by simp
      next
        case files: False
        with fp can up3 obtain jobs s2 where fl: "freshLoop cfg e w ?fs 0 [] ?s3 = Inr (jobs, s2)"
          and enq: "enqueueUploadJobs jobs w s2 = Inr s'"
          by (auto simp: freshPath_def getPendingStagingFiles_def split: sum.splits)
        from freshLoop_Inr_D [OF fl files]
        have bs: "0 < stagingFilesBatchSize cfg" and mgr: "managerNew_ok e (destType s)"
          by (simp_all add: logCall_def setLastExec_def)
        from freshLoop_createUploads [OF bs, of 0 ?fs e w "[]" ?s3] files fl
        have cu: "createUploads e w (chunksOf (nat (stagingFilesBatchSize cfg)) ?fs) [] ?s3
                    = Inr (jobs, s2)" by simp
        from enq obtain queue where q: "workerChannelMap s2 (workerIdentifier w) = Some queue"
          "length queue < 100"
          and s': "s' = logCall (EnqueueCall w (length jobs))
                          (s2\<lparr>workerChannelMap := (workerChannelMap s2)(workerIdentifier w \<mapsto> queue @ [jobs])\<rparr>)"
          by (auto simp: enqueueUploadJobs_def split: option.splits if_splits)
        show ?thesis using fresh [OF up mgr True can files bs cu q s'] .
      qed
    qed
  qed
qed

lemma pendingLoopState_fields [simp]:
  "dbUp (pendingLoopState cfg e w a us s) = dbUp s"
  "destType (pendingLoopState cfg e w a us s) = destType s"
  "wh_uploads (pendingLoopState cfg e w a us s) = wh_uploads s"
  "wh_staging_files (pendingLoopState cfg e w a us s) = wh_staging_files s"
  "workerChannelMap (pendingLoopState cfg e w a us s) = workerChannelMap s"
  "lastExecMap (pendingLoopState cfg e w a us s) = lastExecMap s"
  "inRecoveryMap (pendingLoopState cfg e w a us s) = inRecoveryMap s"
  "inProgressMap (pendingLoopState cfg e w a us s)
     = (if dropWhile (\<lambda>u. canStartPendingUpload cfg e u w) us = [] then inProgressMap s
        else (inProgressMap s)(connectionString w := None))"
  "calls (pendingLoopState cfg e w a us s)
     = calls s @ map (\<lambda>u. GetStagingFilesCall w (up_StartStagingFileID u) (up_EndStagingFileID u))
                   (takeWhile (\<lambda>u. canStartPendingUpload cfg e u w) us)"
  by (simp_all add: pendingLoopState_def Let_def)

lemma small_fields [simp]:
  "inRecoveryMap (logCall c s) = inRecoveryMap s"
  "inRecoveryMap (setDestInProgress w b s) = inRecoveryMap s"
  "inRecoveryMap (setLastExec e w s) = inRecoveryMap s"
  "calls (logCall c s) = calls s @ [c]"
  "calls (setDestInProgress w b s) = calls s"
  "calls (setLastExec e w s) = calls s @ [SetLastExecCall w]"
  "lastExecMap (logCall c s) = lastExecMap s"
  "lastExecMap (setDestInProgress w b s) = lastExecMap s"
  "lastExecMap (setLastExec e w s) = (lastExecMap s)(connectionString w \<mapsto> now e)"
  "workerChannelMap (logCall c s) = workerChannelMap s"
  "workerChannelMap (setDestInProgress w b s) = workerChannelMap s"
  "workerChannelMap (setLastExec e w s) = workerChannelMap s"
  "wh_uploads (logCall c s) = wh_uploads s"
  "wh_uploads (setDestInProgress w b s) = wh_uploads s"
  "wh_uploads (setLastExec e w s) = wh_uploads s"
  "inProgressMap (logCall c s) = inProgressMap s"
  "inProgressMap (setDestInProgress w b s)
     = (if b then (inProgressMap s)(connectionString w \<mapsto> True)
        else (inProgressMap s)(connectionString w := None))"
  "inProgressMap (setLastExec e w s) = inProgressMap s"
  "dbUp (logCall c s) = dbUp s"
  "dbUp (setDestInProgress w b s) = dbUp s"
  "dbUp (setLastExec e w s) = dbUp s"
  "destType (logCall c s) = destType s"
  "destType (setDestInProgress w b s) = destType s"
  "destType (setLastExec e w s) = destType s"
  "store (logCall c s) = store s"
  "store (setDestInProgress w b s) = store s"
  "store (setLastExec e w s) = store s"
  "wh_staging_files (logCall c s) = wh_staging_files s"
  "wh_staging_files (setDestInProgress w b s) = wh_staging_files s"
  "wh_staging_files (setLastExec e w s) = wh_staging_files s"
  by (simp_all add: logCall_def setDestInProgress_def setLastExec_def)

text \<open>What that part leaves alone, and how its log starts.\<close>

lemma createUploads_frame:
  assumes "createUploads e w cs jobs s = Inr (jobs', s')"
  shows "inRecoveryMap s' = inRecoveryMap s \<and> lastExecMap s' = lastExecMap s
         \<and> inProgressMap s' = inProgressMap s \<and> workerChannelMap s' = workerChannelMap s
         \<and> (\<exists>inits. calls s' = calls s @ inits \<and> (\<forall>c \<in> set inits. \<exists>a b. c = InitUploadCall w a b))"
  using assms
proof (induction cs arbitrary: jobs s)
  case Nil
  then show ?case by simp
next
  case (Cons c cs)
  from Cons.prems obtain u s1 where iu: "initUpload e w c s = Inr (u, s1)"
    and rest: "createUploads e w cs
                 (jobs @ [\<lparr>job_upload = length (store s1), job_stagingFiles = c, job_warehouse = w\<rparr>])
                 (s1\<lparr>store := store s1 @ [u]\<rparr>) = Inr (jobs', s')"
    by (auto split: sum.splits if_splits)
  from iu have s1: "inRecoveryMap s1 = inRecoveryMap s" "lastExecMap s1 = lastExecMap s"
    "inProgressMap s1 = inProgressMap s" "workerChannelMap s1 = workerChannelMap s"
    "\<exists>a b. calls s1 = calls s @ [InitUploadCall w a b]"
    by (auto simp: initUpload_def Let_def logCall_def split: if_splits)
  from Cons.IH [OF rest] s1 show ?case by auto
qed

lemma uploadsPath_frame:
  assumes "uploadsPath cfg e w s = Inr s'"
  shows "inRecoveryMap s' = inRecoveryMap s
         \<and> (\<exists>rest. calls s' = calls s @ GetPendingUploadsCall w # rest)"
  using assms
proof (cases rule: uploadsPath_InrE)
  case (fresh queue newJobs s2)
  from createUploads_frame [OF fresh(7)] fresh(10) show ?thesis by auto
qed simp_all


lemma takeWhile_all_iff: "(takeWhile P xs = xs) = (dropWhile P xs = [])"
  by (induction xs) auto

lemma uploadsPath_pending:
  assumes db: "dbUp s" and mgr: "managerNew_ok e (destType s)"
    and pend: "pendingRows w s \<noteq> []"
    and chan: "workerChannelMap s (workerIdentifier w) = Some queue" "length queue < 100"
  shows "uploadsPath cfg e w s =
     Inr (let us = map scanUpload (pendingRows w s);
              adm = takeWhile (\<lambda>u. canStartPendingUpload cfg e u w) us;
              st = pendingLoopState cfg e w (length (store s)) us
                     ((logCall (GetPendingUploadsCall w) s)\<lparr>store := store s @ [zeroUploadT]\<rparr>)
          in if adm = [] then st
             else logCall (EnqueueCall w (length adm))
                    (st\<lparr>workerChannelMap := (workerChannelMap s)(workerIdentifier w \<mapsto> queue @
                       [map (\<lambda>u. \<lparr>job_upload = length (store s),
                              job_stagingFiles = selectStagingFiles w (up_StartStagingFileID u)
                                 (up_EndStagingFileID u) (wh_staging_files s),
                              job_warehouse = w\<rparr>) adm])\<rparr>))"
proof -
  let ?s1 = "logCall (GetPendingUploadsCall w) s"
  let ?s0 = "?s1\<lparr>store := store ?s1 @ [zeroUploadT]\<rparr>"
  let ?us = "map scanUpload (pendingRows w s)"
  have ok: "takeWhile (\<lambda>u. canStartPendingUpload cfg e u w) ?us \<noteq> []
              \<longrightarrow> dbUp ?s0 \<and> managerNew_ok e (destType ?s0)"
    using db mgr by simp
  have up: "uploadsPath cfg e w s = pendingPath cfg e w ?us ?s1"
    using db pend by (simp add: uploadsPath_def getPendingUploads_def)
  show ?thesis
    unfolding up pendingPath_def pendingLoop_closed [OF ok]
    using chan by (simp add: enqueueUploadJobs_def Let_def)
qed


subsection \<open>The uploads table that the main loop builds\<close>

text \<open>
  The main loop writes the uploads table through \<^verbatim>\<open>initUpload\<close> only, in the branch
  without pending uploads, over the staging files beyond the end id of the last terminal
  upload, in ascending id and with the next value of the id sequence. So a pass over a
  binding of the router's destination type keeps the table orderly: within one source,
  destination and destination type the end ids grow with the upload ids. The empty table
  is orderly, and a change of status leaves a table orderly.
\<close>

lemma orderlyTable_cong:
  "wh_uploads s' = wh_uploads s \<Longrightarrow> wh_uploads_id_seq s' = wh_uploads_id_seq s
     \<Longrightarrow> orderlyTable s' = orderlyTable s"
  by (simp add: orderlyTable_def)

lemma orderlyTable_empty: "wh_uploads s = [] \<Longrightarrow> orderlyTable s"
  by (simp add: orderlyTable_def)

lemma orderlyTable_status:
  "orderlyTable (s\<lparr>wh_uploads := map (\<lambda>u. u\<lparr>upr_status := f u\<rparr>) (wh_uploads s)\<rparr>)
     = orderlyTable s"
  by (simp add: orderlyTable_def sameRoute_def)

lemma orderlyTable_terminal: "orderlyTable s \<Longrightarrow> endsFollowIds (terminalUploads w s)"
  unfolding orderlyTable_def endsFollowIds_def terminalUploads_def sameRoute_def
  by simp

lemma seq_fields [simp]:
  "wh_uploads_id_seq (logCall c s) = wh_uploads_id_seq s"
  "wh_uploads_id_seq (setDestInProgress w b s) = wh_uploads_id_seq s"
  "wh_uploads_id_seq (setLastExec e w s) = wh_uploads_id_seq s"
  "wh_uploads_id_seq (pendingLoopState cfg e w a us s) = wh_uploads_id_seq s"
  "warehouses (logCall c s) = warehouses s"
  "warehouses (setDestInProgress w b s) = warehouses s"
  "warehouses (setLastExec e w s) = warehouses s"
  "warehouses (pendingLoopState cfg e w a us s) = warehouses s"
  "warehouses (afterRecovery w s) = warehouses s"
  "isEnabled (logCall c s) = isEnabled s"
  "isEnabled (setDestInProgress w b s) = isEnabled s"
  "isEnabled (setLastExec e w s) = isEnabled s"
  "isEnabled (pendingLoopState cfg e w a us s) = isEnabled s"
  "isEnabled (afterRecovery w s) = isEnabled s"
  by (simp_all add: logCall_def setDestInProgress_def setLastExec_def pendingLoopState_def
      afterRecovery_def Let_def)

lemma initUpload_orderly:
  assumes iu: "initUpload e w c s = Inr (u, s1)"
    and ord: "orderlyTable s"
    and bound: "\<forall>r \<in> set (wh_uploads s).
                  upr_source_id r = src_ID (Source w)
                  \<and> upr_destination_id r = dst_ID (Destination w)
                  \<and> upr_destination_type r = destType s
                    \<longrightarrow> upr_end_staging_file_id r \<le> b"
    and ge: "b \<le> sf_ID (last c)"
  shows "orderlyTable s1 \<and> destType s1 = destType s \<and> warehouses s1 = warehouses s
         \<and> isEnabled s1 = isEnabled s \<and> c \<noteq> []
         \<and> (\<forall>r \<in> set (wh_uploads s1).
                  upr_source_id r = src_ID (Source w)
                  \<and> upr_destination_id r = dst_ID (Destination w)
                  \<and> upr_destination_type r = destType s
                    \<longrightarrow> upr_end_staging_file_id r \<le> sf_ID (last c))"
proof -
  from iu have db: "dbUp s" and ne: "c \<noteq> []"
    by (auto simp: initUpload_def split: if_splits)
  from initUpload_closed [OF db ne, of e w] iu
  obtain row where s1: "s1 = logCall (InitUploadCall w (sf_ID (hd c)) (sf_ID (last c)))
                         (s\<lparr>wh_uploads := wh_uploads s @ [row],
                           wh_uploads_id_seq := wh_uploads_id_seq s + 1\<rparr>)"
    and r: "upr_id row = wh_uploads_id_seq s + 1"
           "upr_end_staging_file_id row = sf_ID (last c)"
           "upr_source_id row = src_ID (Source w)"
           "upr_destination_id row = dst_ID (Destination w)"
           "upr_destination_type row = destType s"
    by auto
  have up: "wh_uploads s1 = wh_uploads s @ [row]"
    and sq: "wh_uploads_id_seq s1 = wh_uploads_id_seq s + 1"
    and fr: "destType s1 = destType s" "warehouses s1 = warehouses s" "isEnabled s1 = isEnabled s"
    unfolding s1 by (simp_all add: logCall_def)
  from ord have ids: "\<forall>x \<in> set (wh_uploads s). upr_id x \<le> wh_uploads_id_seq s"
    and mono: "\<forall>x \<in> set (wh_uploads s). \<forall>y \<in> set (wh_uploads s).
            sameRoute x y \<and> upr_id x \<le> upr_id y
              \<longrightarrow> upr_end_staging_file_id x \<le> upr_end_staging_file_id y"
    by (simp_all add: orderlyTable_def)
  have old_new: "upr_end_staging_file_id x \<le> upr_end_staging_file_id row"
    if "x \<in> set (wh_uploads s)" "sameRoute x row" for x
    using that bound ge r by (auto simp: sameRoute_def)
  have new_old: "\<not> upr_id row \<le> upr_id x" if "x \<in> set (wh_uploads s)" for x
    using that ids r by force
  have o1: "orderlyTable s1"
    unfolding orderlyTable_def up sq
    using ids mono old_new new_old r(1) by (auto simp: ball_Un)
  have b1: "\<forall>r \<in> set (wh_uploads s1).
                  upr_source_id r = src_ID (Source w)
                  \<and> upr_destination_id r = dst_ID (Destination w)
                  \<and> upr_destination_type r = destType s
                    \<longrightarrow> upr_end_staging_file_id r \<le> sf_ID (last c)"
    unfolding up using bound ge r by auto
  from o1 fr ne b1 show ?thesis by blast
qed

lemma createUploads_orderly:
  assumes "createUploads e w cs jobs s = Inr (jobs', s')"
    and "orderlyTable s"
    and "\<forall>r \<in> set (wh_uploads s).
           upr_source_id r = src_ID (Source w)
           \<and> upr_destination_id r = dst_ID (Destination w)
           \<and> upr_destination_type r = destType s
             \<longrightarrow> upr_end_staging_file_id r \<le> b"
    and "sorted (map sf_ID (concat cs))"
    and "\<forall>f \<in> set (concat cs). b \<le> sf_ID f"
  shows "orderlyTable s' \<and> destType s' = destType s \<and> warehouses s' = warehouses s
         \<and> isEnabled s' = isEnabled s"
  using assms
proof (induction cs arbitrary: jobs s b)
  case Nil
  then show ?case by simp
next
  case (Cons c cs)
  from Cons.prems(1) obtain u s1 where iu: "initUpload e w c s = Inr (u, s1)"
    and rest: "createUploads e w cs
                 (jobs @ [\<lparr>job_upload = length (store s1), job_stagingFiles = c, job_warehouse = w\<rparr>])
                 (s1\<lparr>store := store s1 @ [u]\<rparr>) = Inr (jobs', s')"
    by (auto split: sum.splits if_splits)
  from iu have ne: "c \<noteq> []" by (auto simp: initUpload_def split: if_splits)
  then have lst: "last c \<in> set c" by simp
  with Cons.prems(5) have ge: "b \<le> sf_ID (last c)" by simp
  from initUpload_orderly [OF iu Cons.prems(2,3) ge]
  have o1: "orderlyTable s1" and fr: "destType s1 = destType s" "warehouses s1 = warehouses s"
      "isEnabled s1 = isEnabled s"
    and b1: "\<forall>r \<in> set (wh_uploads s1).
                  upr_source_id r = src_ID (Source w)
                  \<and> upr_destination_id r = dst_ID (Destination w)
                  \<and> upr_destination_type r = destType s
                    \<longrightarrow> upr_end_staging_file_id r \<le> sf_ID (last c)"
    by simp_all
  let ?s2 = "s1\<lparr>store := store s1 @ [u]\<rparr>"
  have o2: "orderlyTable ?s2" using o1 by (simp add: orderlyTable_def)
  have b2: "\<forall>r \<in> set (wh_uploads ?s2).
                  upr_source_id r = src_ID (Source w)
                  \<and> upr_destination_id r = dst_ID (Destination w)
                  \<and> upr_destination_type r = destType ?s2
                    \<longrightarrow> upr_end_staging_file_id r \<le> sf_ID (last c)"
    using b1 fr by simp
  from Cons.prems(4) have srt: "sorted (map sf_ID (concat cs))"
    and le: "\<forall>x \<in> set c. \<forall>f \<in> set (concat cs). sf_ID x \<le> sf_ID f"
    by (auto simp: sorted_append)
  from le lst have ge2: "\<forall>f \<in> set (concat cs). sf_ID (last c) \<le> sf_ID f" by blast
  from Cons.IH [OF rest o2 b2 srt ge2] fr show ?case by simp
qed

lemma terminal_or_pending:
  assumes "pendingRows w s = []" and "Type w = destType s"
    and "r \<in> set (wh_uploads s)"
    and "upr_source_id r = src_ID (Source w)" "upr_destination_id r = dst_ID (Destination w)"
        "upr_destination_type r = destType s"
  shows "r \<in> set (terminalUploads w s)"
proof -
  from assms(1) have "set (pendingRows w s) = {}" by simp
  then have "\<forall>u \<in> set (wh_uploads s).
      \<not> (upr_destination_type u = destType s \<and> upr_source_id u = src_ID (Source w)
          \<and> upr_destination_id u = dst_ID (Destination w)
          \<and> upr_status u \<noteq> ExportedDataState \<and> upr_status u \<noteq> AbortedState)"
    unfolding pendingRows_def by (simp add: filter_empty_conv)
  with assms(2-) show ?thesis by (auto simp: terminalUploads_def)
qed

lemma lastStagingFileID_bound:
  assumes ord: "orderlyTable s" and r: "r \<in> set (terminalUploads w s)"
  shows "upr_end_staging_file_id r \<le> lastStagingFileID w s"
proof -
  from r have ne: "terminalUploads w s \<noteq> []" by auto
  from lastStagingFileID_some [OF ne]
  obtain u where u: "u \<in> set (terminalUploads w s)"
    and l: "lastStagingFileID w s = upr_end_staging_file_id u"
    and top: "\<forall>u' \<in> set (terminalUploads w s). upr_id u' \<le> upr_id u" by blast
  from orderlyTable_terminal [OF ord, of w] u r top show ?thesis
    unfolding l by (auto simp: endsFollowIds_def)
qed

lemma uploadsPath_orderly:
  assumes run: "uploadsPath cfg e w s = Inr s'"
    and ord: "orderlyTable s" and ty: "Type w = destType s"
  shows "orderlyTable s' \<and> destType s' = destType s \<and> warehouses s' = warehouses s
         \<and> isEnabled s' = isEnabled s"
  using run
proof (cases rule: uploadsPath_InrE)
  case rejected
  then show ?thesis using ord by (simp add: orderlyTable_def)
next
  case (retried queue)
  then show ?thesis using ord by (simp add: orderlyTable_def)
next
  case gated
  then show ?thesis using ord by (simp add: orderlyTable_def)
next
  case nofiles
  then show ?thesis using ord by (simp add: orderlyTable_def)
next
  case (fresh queue newJobs s2)
  let ?s3 = "logCall (GetPendingStagingFilesCall w)
               (setLastExec e w (logCall (GetPendingUploadsCall w) s))"
  let ?fs = "selectPendingStagingFiles w s"
  let ?n = "nat (stagingFilesBatchSize cfg)"
  have n0: "0 < ?n" using fresh(6) by simp
  have o3: "orderlyTable ?s3" using ord by (simp add: orderlyTable_def)
  have b3: "\<forall>r \<in> set (wh_uploads ?s3).
           upr_source_id r = src_ID (Source w)
           \<and> upr_destination_id r = dst_ID (Destination w)
           \<and> upr_destination_type r = destType ?s3
             \<longrightarrow> upr_end_staging_file_id r \<le> lastStagingFileID w s"
    using terminal_or_pending [OF fresh(3) ty] lastStagingFileID_bound [OF ord, of _ w]
    by simp
  have srt: "sorted (map sf_ID (concat (chunksOf ?n ?fs)))"
    unfolding concat_chunksOf [OF n0]
    by (simp add: selectPendingStagingFiles_def scanStagingFile_def comp_def)
  have ge: "\<forall>f \<in> set (concat (chunksOf ?n ?fs)). lastStagingFileID w s \<le> sf_ID f"
    unfolding concat_chunksOf [OF n0]
    by (auto simp: selectPendingStagingFiles_def scanStagingFile_def)
  from createUploads_orderly [OF fresh(7) o3 b3 srt ge]
  have "orderlyTable s2" "destType s2 = destType s" "warehouses s2 = warehouses s"
       "isEnabled s2 = isEnabled s" by simp_all
  then show ?thesis unfolding fresh(10) by (simp add: orderlyTable_def)
qed

lemma processWarehouse_orderly:
  assumes run: "processWarehouse cfg e w s = Inr s'"
    and ord: "orderlyTable s" and ty: "Type w = destType s"
  shows "orderlyTable s' \<and> destType s' = destType s \<and> warehouses s' = warehouses s
         \<and> isEnabled s' = isEnabled s"
proof (cases "isDestInProgress w s")
  case True
  with run ord show ?thesis by (simp add: processWarehouse_def)
next
  case free: False
  show ?thesis
  proof (cases "inRecoveryMap s (dst_ID (Destination w)) \<noteq> None
                  \<and> \<not> (managerNew_ok e (destType s) \<and> \<not> crashRecover_err e w)")
    case True
    with run free have "s' = setDestInProgress w False
                               (logCall (CrashRecoverCall w) (setDestInProgress w True s))"
      by (auto simp: processWarehouse_def Let_def setDestInProgress_def logCall_def
          split: if_splits)
    then show ?thesis using ord by (simp add: orderlyTable_def)
  next
    case False
    then have "inRecoveryMap s (dst_ID (Destination w)) \<noteq> None
           \<longrightarrow> managerNew_ok e (destType s) \<and> \<not> crashRecover_err e w" by blast
    from processWarehouse_proceeds [OF free this, of cfg] run
    have up: "uploadsPath cfg e w (afterRecovery w s) = Inr s'" by simp
    have o: "orderlyTable (afterRecovery w s)" using ord by (simp add: orderlyTable_def)
    from uploadsPath_orderly [OF up o] ty show ?thesis by simp
  qed
qed

lemma forEachWarehouse_orderly:
  assumes "forEachWarehouse cfg e ws s = Inr s'"
    and "orderlyTable s" and "\<forall>w \<in> set ws. Type w = destType s"
  shows "orderlyTable s' \<and> destType s' = destType s \<and> warehouses s' = warehouses s
         \<and> isEnabled s' = isEnabled s"
  using assms
proof (induction ws arbitrary: s)
  case Nil
  then show ?case by simp
next
  case (Cons w ws)
  from Cons.prems(1) obtain s1 where pw: "processWarehouse cfg e w s = Inr s1"
    and rest: "forEachWarehouse cfg e ws s1 = Inr s'"
    by (auto split: sum.splits)
  from Cons.prems(3) have ty: "Type w = destType s" by simp
  from processWarehouse_orderly [OF pw Cons.prems(2) ty]
  have o1: "orderlyTable s1" and fr: "destType s1 = destType s" "warehouses s1 = warehouses s"
    "isEnabled s1 = isEnabled s" by simp_all
  from Cons.prems(3) fr have tys: "\<forall>w \<in> set ws. Type w = destType s1" by simp
  from Cons.IH [OF rest o1 tys] fr show ?case by simp
qed

lemma mainLoop_orderly:
  assumes "mainLoop cfg es s = Inr s'"
    and "orderlyTable s" and "\<forall>w \<in> set (warehouses s). Type w = destType s"
  shows "orderlyTable s'"
  using assms
proof (induction es arbitrary: s)
  case Nil
  then show ?case by simp
next
  case (Cons e es)
  from Cons.prems(1) obtain s1 where tick: "mainLoopTick cfg e s = Inr s1"
    and rest: "mainLoop cfg es s1 = Inr s'"
    by (auto split: sum.splits)
  have "orderlyTable s1 \<and> destType s1 = destType s \<and> warehouses s1 = warehouses s"
  proof (cases "isEnabled s")
    case False
    with tick Cons.prems(2) show ?thesis by (simp add: mainLoopTick_def)
  next
    case True
    with tick have "forEachWarehouse cfg e (warehouses s) s = Inr s1"
      by (simp add: mainLoopTick_def)
    from forEachWarehouse_orderly [OF this Cons.prems(2,3)] show ?thesis by simp
  qed
  with Cons.IH [OF rest] Cons.prems(3) show ?case by simp
qed


lemmas scen_defs = ex_defs exConfig_def exEnv_def rsWorld_def failingRecoveryEnv_def
  retryWorld_def twoPendingWorld_def

lemmas key_defs = connectionString_def workerIdentifier_def isDestInProgress_def

subsection \<open>Crash recovery\<close>

text \<open>
  C8. Take a binding that is not in progress, whose destination is in the recovery set
  and for which \<^verbatim>\<open>manager.New\<close> succeeds. If \<^verbatim>\<open>CrashRecover\<close> fails, the pass over
  the binding ends with \<^verbatim>\<open>CrashRecover\<close> as its only call: the destination is still in
  the recovery set, the in-progress bit of the pair is cleared, nothing is enqueued and
  no upload is created; and the next pass over the binding from that state calls
  \<^verbatim>\<open>CrashRecover\<close> first again. If \<^verbatim>\<open>CrashRecover\<close> succeeds, the pass goes on, in
  the same iteration, with the discovery of pending uploads on a state from which the
  destination has been removed; whenever it returns, the destination is out of the
  recovery set and the calls of the pass begin with \<^verbatim>\<open>CrashRecover\<close> followed by
  \<^verbatim>\<open>getPendingUploads\<close>.
\<close>

theorem crash_recovery_comes_first:
  assumes rec: "inRecoveryMap s (dst_ID (Destination w)) \<noteq> None"
    and free: "\<not> isDestInProgress w s"
    and mgr: "managerNew_ok e (destType s)"
  shows "(crashRecover_err e w \<longrightarrow>
            (\<exists>s'. processWarehouse cfg e w s = Inr s'
               \<and> calls s' = calls s @ [CrashRecoverCall w]
               \<and> inRecoveryMap s' = inRecoveryMap s
               \<and> inProgressMap s' (connectionString w) = None
               \<and> workerChannelMap s' = workerChannelMap s
               \<and> wh_uploads s' = wh_uploads s
               \<and> (\<forall>e2 s2. managerNew_ok e2 (destType s') \<and> processWarehouse cfg e2 w s' = Inr s2
                     \<longrightarrow> (\<exists>rest. calls s2 = calls s' @ CrashRecoverCall w # rest))))
         \<and> (\<not> crashRecover_err e w \<longrightarrow>
              processWarehouse cfg e w s = uploadsPath cfg e w (afterRecovery w s)
              \<and> inRecoveryMap (afterRecovery w s) (dst_ID (Destination w)) = None
              \<and> (\<forall>s'. processWarehouse cfg e w s = Inr s' \<longrightarrow>
                    inRecoveryMap s' (dst_ID (Destination w)) = None
                    \<and> (\<exists>rest. calls s' = calls s @ CrashRecoverCall w # GetPendingUploadsCall w # rest)))"
proof (intro conjI impI)
  assume err: "crashRecover_err e w"
  let ?s' = "setDestInProgress w False (logCall (CrashRecoverCall w) (setDestInProgress w True s))"
  have run: "processWarehouse cfg e w s = Inr ?s'"
    using rec free mgr err by (simp add: processWarehouse_def Let_def)
  have again: "\<exists>rest. calls s2 = calls ?s' @ CrashRecoverCall w # rest"
    if m2: "managerNew_ok e2 (destType ?s')" and r2: "processWarehouse cfg e2 w ?s' = Inr s2"
    for e2 s2
  proof (cases "crashRecover_err e2 w")
    case True
    with rec m2 r2 show ?thesis
      by (auto simp: processWarehouse_def Let_def isDestInProgress_def)
  next
    case False
    have "\<not> isDestInProgress w ?s'" by (simp add: isDestInProgress_def)
    moreover have "inRecoveryMap ?s' (dst_ID (Destination w)) \<noteq> None
                     \<longrightarrow> managerNew_ok e2 (destType ?s') \<and> \<not> crashRecover_err e2 w"
      using m2 False by simp
    ultimately have "processWarehouse cfg e2 w ?s' = uploadsPath cfg e2 w (afterRecovery w ?s')"
      by (rule processWarehouse_proceeds)
    with r2 uploadsPath_frame [of cfg e2 w "afterRecovery w ?s'" s2] rec
    show ?thesis by auto
  qed
  show "\<exists>s'. processWarehouse cfg e w s = Inr s'
               \<and> calls s' = calls s @ [CrashRecoverCall w]
               \<and> inRecoveryMap s' = inRecoveryMap s
               \<and> inProgressMap s' (connectionString w) = None
               \<and> workerChannelMap s' = workerChannelMap s
               \<and> wh_uploads s' = wh_uploads s
               \<and> (\<forall>e2 s2. managerNew_ok e2 (destType s') \<and> processWarehouse cfg e2 w s' = Inr s2
                     \<longrightarrow> (\<exists>rest. calls s2 = calls s' @ CrashRecoverCall w # rest))"
    using run again by (intro exI [of _ ?s']) auto
next
  assume ok: "\<not> crashRecover_err e w"
  show pr: "processWarehouse cfg e w s = uploadsPath cfg e w (afterRecovery w s)"
    using free mgr ok by (intro processWarehouse_proceeds) simp_all
  show "inRecoveryMap (afterRecovery w s) (dst_ID (Destination w)) = None" by simp
  show "\<forall>s'. processWarehouse cfg e w s = Inr s' \<longrightarrow>
                    inRecoveryMap s' (dst_ID (Destination w)) = None
                    \<and> (\<exists>rest. calls s' = calls s @ CrashRecoverCall w # GetPendingUploadsCall w # rest)"
  proof (intro allI impI)
    fix s' assume "processWarehouse cfg e w s = Inr s'"
    with pr uploadsPath_frame [of cfg e w "afterRecovery w s" s'] rec
    show "inRecoveryMap s' (dst_ID (Destination w)) = None
            \<and> (\<exists>rest. calls s' = calls s @ CrashRecoverCall w # GetPendingUploadsCall w # rest)"
      by auto
  qed
qed

text \<open>
  The interrupted Redshift upload: with a failing recovery the destination stays
  quarantined; with a successful one the upload is picked up in the same pass.
\<close>

theorem crash_recovery_comes_first_witness:
  "inRecoveryMap rsWorld (dst_ID (Destination (exWarehouse ''RS''))) \<noteq> None
   \<and> \<not> isDestInProgress (exWarehouse ''RS'') rsWorld
   \<and> managerNew_ok failingRecoveryEnv (destType rsWorld)
   \<and> crashRecover_err failingRecoveryEnv (exWarehouse ''RS'')
   \<and> (\<exists>s'. processWarehouse exConfig failingRecoveryEnv (exWarehouse ''RS'') rsWorld = Inr s'
          \<and> calls s' = [CrashRecoverCall (exWarehouse ''RS'')]
          \<and> inRecoveryMap s' ''D'' = Some True
          \<and> inProgressMap s' ''source:S:destination:D'' = None
          \<and> workerChannelMap s' ''D_ns'' = Some [])
   \<and> \<not> crashRecover_err (exEnv 1000) (exWarehouse ''RS'')
   \<and> (\<exists>s' rest. processWarehouse exConfig (exEnv 1000) (exWarehouse ''RS'') rsWorld = Inr s'
          \<and> inRecoveryMap s' ''D'' = None
          \<and> calls s' = CrashRecoverCall (exWarehouse ''RS'')
                         # GetPendingUploadsCall (exWarehouse ''RS'') # rest)"
proof -
  let ?w = "exWarehouse ''RS''"
  have rec: "inRecoveryMap rsWorld (dst_ID (Destination ?w)) \<noteq> None"
    by (simp add: scen_defs)
  have free: "\<not> isDestInProgress ?w rsWorld" by (simp add: scen_defs key_defs)
  have mgr1: "managerNew_ok failingRecoveryEnv (destType rsWorld)" by (simp add: scen_defs)
  have mgr2: "managerNew_ok (exEnv 1000) (destType rsWorld)" by (simp add: scen_defs)
  have err: "crashRecover_err failingRecoveryEnv ?w" by (simp add: scen_defs)
  have ok: "\<not> crashRecover_err (exEnv 1000) ?w" by (simp add: scen_defs)
  have start: "calls rsWorld = []" "inRecoveryMap rsWorld ''D'' = Some True"
    "workerChannelMap rsWorld ''D_ns'' = Some []" "dst_ID (Destination ?w) = ''D''"
    "connectionString ?w = ''source:S:destination:D''"
    by (simp_all add: scen_defs key_defs)
  from crash_recovery_comes_first [OF rec free mgr1, of exConfig] err
  obtain s1 where f: "processWarehouse exConfig failingRecoveryEnv ?w rsWorld = Inr s1"
    "calls s1 = calls rsWorld @ [CrashRecoverCall ?w]" "inRecoveryMap s1 = inRecoveryMap rsWorld"
    "inProgressMap s1 (connectionString ?w) = None" "workerChannelMap s1 = workerChannelMap rsWorld"
    by blast
  have run: "\<exists>s2. processWarehouse exConfig (exEnv 1000) ?w rsWorld = Inr s2"
    by (simp add: processWarehouse_def uploadsPath_def pendingPath_def getPendingUploads_def
        pendingRows_def scanUpload_def getStagingFiles_def enqueueUploadJobs_def
        canStartPendingUpload_def TimingFromJSONString_def attemptOf_def
        setDestInProgress_def logCall_def scen_defs key_defs Let_def)
  then obtain s2 where r2: "processWarehouse exConfig (exEnv 1000) ?w rsWorld = Inr s2" ..
  from crash_recovery_comes_first [OF rec free mgr2, of exConfig] ok r2
  obtain rest where g: "inRecoveryMap s2 (dst_ID (Destination ?w)) = None"
    "calls s2 = calls rsWorld @ CrashRecoverCall ?w # GetPendingUploadsCall ?w # rest"
    by blast
  show ?thesis
    using rec free mgr1 err ok f g r2 start by auto
qed

subsection \<open>Evaluation rules and further closed forms\<close>

lemmas eval_defs = processWarehouse_def uploadsPath_def pendingPath_def getPendingUploads_def
  pendingRows_def scanUpload_def getStagingFiles_def selectStagingFiles_def enqueueUploadJobs_def
  canStartPendingUpload_def TimingFromJSONString_def attemptOf_def setDestInProgress_def
  logCall_def ofPair_def deref_def zeroUploadT_def Let_def

lemmas scen_defs2 = scen_defs freqWorld_def minuteEnv_def fiveHundredWorld_def

lemmas parse_defs = ParseInt_def ParseUint_def isDigit_def digitVal_def maxUint64_def Let_def

text \<open>
  \<^verbatim>\<open>ParseInt\<close> on a few strings: a number of minutes, a sign, a syntax error (the value
  is 0), a range error (the value is the largest \<^verbatim>\<open>int64\<close>, and sixty times it wraps
  around).
\<close>

lemma ParseInt_examples:
  "ParseInt ''30'' = (30, None)"
  "ParseInt ''-30'' = (- 30, None)"
  "ParseInt ''3x'' = (0, Some ErrSyntax)"
  "ParseInt ''9223372036854775808'' = (9223372036854775807, Some ErrRange)"
  "int64 (fst (ParseInt ''9223372036854775808'') * 60) = - 60"
  by (simp_all add: parse_defs int64_def)

lemma int64_id: "in_int64 x \<Longrightarrow> int64 x = x"
  by (simp add: in_int64_def int64_def)

lemma canStartUpload_numeric:
  assumes "in_int64 (60 * fst (ParseInt (syncFrequency e w)))"
    and "\<forall>t. lastExecMap s (connectionString w) = Some t \<longrightarrow> in_int64 (now e - t)"
  shows "canStartUpload cfg e w s
         = (\<not> (\<exists>t. lastExecMap s (connectionString w) = Some t
                  \<and> now e - t < (if syncFrequency e w = [] then uploadFreqInS cfg
                                  else 60 * fst (ParseInt (syncFrequency e w)))))"
  using assms
  by (auto simp: canStartUpload_def uploadFrequencyExceeded_def int64_id mult.commute
      split: option.splits)

lemma processWarehouse_Inr_manager:
  assumes "processWarehouse cfg e w s = Inr s'" "\<not> isDestInProgress w s"
    and "inRecoveryMap s (dst_ID (Destination w)) \<noteq> None"
  shows "managerNew_ok e (destType s)"
  using assms by (auto simp: processWarehouse_def Let_def split: if_splits)

lemma map_deref_new:
  "map (\<lambda>a. if a < length (xs @ ups) then Some ((xs @ ups) ! a) else None)
     [length xs..<length xs + length ups] = map Some ups"
  by (rule nth_equalityI) (simp_all add: nth_append)

lemma uploadsPath_fresh:
  assumes db: "dbUp s" and mgr: "managerNew_ok e (destType s)"
    and fresh: "pendingRows w s = []" and can: "canStartUpload cfg e w s"
    and files: "selectPendingStagingFiles w s \<noteq> []"
    and bs: "0 < stagingFilesBatchSize cfg"
    and chan: "workerChannelMap s (workerIdentifier w) = Some queue" "length queue < 100"
  shows "\<exists>s' batch ups rows.
           uploadsPath cfg e w s = Inr s'
           \<and> workerChannelMap s' = (workerChannelMap s)(workerIdentifier w \<mapsto> queue @ [batch])
           \<and> wh_uploads s' = wh_uploads s @ rows
           \<and> store s' = store s @ ups
           \<and> inProgressMap s' = inProgressMap s
           \<and> lastExecMap s' = (lastExecMap s)(connectionString w \<mapsto> now e)
           \<and> map job_stagingFiles batch
               = chunksOf (nat (stagingFilesBatchSize cfg)) (selectPendingStagingFiles w s)
           \<and> map job_upload batch = [length (store s)..<length (store s) + length ups]
           \<and> (\<forall>j \<in> set batch. job_warehouse j = w)
           \<and> map (\<lambda>r. (upr_start_staging_file_id r, upr_end_staging_file_id r, upr_status r)) rows
               = map (\<lambda>c. (sf_ID (hd c), sf_ID (last c), WaitingState))
                   (chunksOf (nat (stagingFilesBatchSize cfg)) (selectPendingStagingFiles w s))
           \<and> map (\<lambda>u. (up_ID u, up_StartStagingFileID u, up_EndStagingFileID u, up_Status u)) ups
               = map (\<lambda>r. (upr_id r, upr_start_staging_file_id r, upr_end_staging_file_id r,
                           upr_status r)) rows"
proof -
  let ?fs = "selectPendingStagingFiles w s"
  let ?cs = "chunksOf (nat (stagingFilesBatchSize cfg)) ?fs"
  let ?s1 = "logCall (GetPendingUploadsCall w) s"
  let ?s3 = "logCall (GetPendingStagingFilesCall w) (setLastExec e w ?s1)"
  have ne: "\<forall>c \<in> set ?cs. c \<noteq> []" using chunksOf_nonempty by blast
  have "dbUp ?s3" "managerNew_ok e (destType ?s3)" using db mgr by simp_all
  from createUploads_closed [OF this ne, of w "[]"]
  obtain newJobs ups rows where
    cu: "createUploads e w ?cs [] ?s3
           = Inr ([] @ newJobs,
                  ?s3\<lparr>wh_uploads := wh_uploads ?s3 @ rows,
                      wh_uploads_id_seq := wh_uploads_id_seq ?s3 + int (length ?cs),
                      store := store ?s3 @ ups,
                      calls := calls ?s3 @ map (\<lambda>c. InitUploadCall w (sf_ID (hd c)) (sf_ID (last c))) ?cs\<rparr>)"
    and j1: "map job_stagingFiles newJobs = ?cs"
    and j2: "map job_upload newJobs = [length (store ?s3)..<length (store ?s3) + length ?cs]"
    and j3: "\<forall>j \<in> set newJobs. job_warehouse j = w"
    and u1: "map (\<lambda>u. (up_StartStagingFileID u, up_EndStagingFileID u, up_Status u)) ups
               = map (\<lambda>c. (sf_ID (hd c), sf_ID (last c), WaitingState)) ?cs"
    and r1: "map (\<lambda>r. (upr_start_staging_file_id r, upr_end_staging_file_id r, upr_status r)) rows
               = map (\<lambda>c. (sf_ID (hd c), sf_ID (last c), WaitingState)) ?cs"
    and i1: "map up_ID ups = map upr_id rows"
    by blast
  let ?s4 = "?s3\<lparr>wh_uploads := wh_uploads ?s3 @ rows,
                      wh_uploads_id_seq := wh_uploads_id_seq ?s3 + int (length ?cs),
                      store := store ?s3 @ ups,
                      calls := calls ?s3 @ map (\<lambda>c. InitUploadCall w (sf_ID (hd c)) (sf_ID (last c))) ?cs\<rparr>"
  let ?s' = "logCall (EnqueueCall w (length newJobs))
               (?s4\<lparr>workerChannelMap := (workerChannelMap ?s4)(workerIdentifier w \<mapsto> queue @ [newJobs])\<rparr>)"
  have fl: "freshLoop cfg e w ?fs 0 [] ?s3 = Inr (newJobs, ?s4)"
    using freshLoop_createUploads [OF bs, of 0 ?fs e w "[]" ?s3] files cu by simp
  have run: "uploadsPath cfg e w s = Inr ?s'"
    using db fresh can files chan fl
    by (simp add: uploadsPath_def getPendingUploads_def freshPath_def getPendingStagingFiles_def
        enqueueUploadJobs_def)
  have lu: "length ups = length ?cs" using arg_cong [OF u1, of length] by simp
  have lr: "length rows = length ups" using arg_cong [OF i1, of length] by simp
  have u2: "map (\<lambda>u. (up_ID u, up_StartStagingFileID u, up_EndStagingFileID u, up_Status u)) ups
               = map (\<lambda>r. (upr_id r, upr_start_staging_file_id r, upr_end_staging_file_id r,
                           upr_status r)) rows"
  proof (rule nth_equalityI)
    show "length (map (\<lambda>u. (up_ID u, up_StartStagingFileID u, up_EndStagingFileID u, up_Status u)) ups)
            = length (map (\<lambda>r. (upr_id r, upr_start_staging_file_id r, upr_end_staging_file_id r,
                           upr_status r)) rows)" using lr by simp
  next
    fix i assume "i < length (map (\<lambda>u. (up_ID u, up_StartStagingFileID u, up_EndStagingFileID u, up_Status u)) ups)"
    then have i: "i < length ups" by simp
    from i lr have ir: "i < length rows" by simp
    from arg_cong [OF i1, of "\<lambda>xs. xs ! i"] i ir have "up_ID (ups ! i) = upr_id (rows ! i)"
      by simp
    moreover from u1 r1 have "map (\<lambda>u. (up_StartStagingFileID u, up_EndStagingFileID u, up_Status u)) ups ! i
        = map (\<lambda>r. (upr_start_staging_file_id r, upr_end_staging_file_id r, upr_status r)) rows ! i"
      by (simp only:)
    ultimately show "map (\<lambda>u. (up_ID u, up_StartStagingFileID u, up_EndStagingFileID u, up_Status u)) ups ! i
        = map (\<lambda>r. (upr_id r, upr_start_staging_file_id r, upr_end_staging_file_id r,
                           upr_status r)) rows ! i"
      using i ir by simp
  qed
  show ?thesis
    apply (intro exI [of _ ?s'] exI [of _ newJobs] exI [of _ ups] exI [of _ rows])
    using run j1 j2 j3 r1 u2 lu
    apply simp
    done
qed

lemma sorted_map_int_upt: "sorted (map int [a..<b])"
  by (simp add: sorted_map)

lemma select_fiveHundred:
  "selectPendingStagingFiles (exWarehouse ''POSTGRES'') fiveHundredWorld
     = map (\<lambda>i. scanStagingFile (exStagingFile (int i))) [1..<501]"
proof -
  let ?w = "exWarehouse ''POSTGRES''"
  have l0: "lastStagingFileID ?w fiveHundredWorld = 0"
    by (simp add: lastStagingFileID_def terminalUploads_def scen_defs2)
  have all: "filter (\<lambda>r. sfr_id r > 0 \<and> ofPair ?w r) (wh_staging_files fiveHundredWorld)
               = wh_staging_files fiveHundredWorld"
    by (simp add: filter_id_conv ofPair_def scen_defs2 del: upt_rec_numeral)
  have "sorted (map sfr_id (wh_staging_files fiveHundredWorld))"
    using sorted_map_int_upt [of 1 501] by (simp add: scen_defs2 comp_def del: upt_rec_numeral)
  then have "sort_key sfr_id (wh_staging_files fiveHundredWorld) = wh_staging_files fiveHundredWorld"
    by (rule sort_key_id_if_sorted)
  then show ?thesis
    by (simp add: selectPendingStagingFiles_def l0 all del: upt_rec_numeral)
      (simp add: scen_defs2 del: upt_rec_numeral)
qed

lemma chunks_fiveHundred:
  "chunksOf 200 (map f [1..<501]) = [map f [1..<201], map f [201..<401], map f [401..<501]]"
proof -
  have a: "chunksOf 200 (map f [1..<501]) = map f [1..<201] # chunksOf 200 (map f [201..<501])"
    by (subst chunksOf_step) (simp_all add: take_map drop_map del: upt_rec_numeral)
  have b: "chunksOf 200 (map f [201..<501]) = map f [201..<401] # chunksOf 200 (map f [401..<501])"
    by (subst chunksOf_step) (simp_all add: take_map drop_map del: upt_rec_numeral)
  have c: "chunksOf 200 (map f [401..<501]) = map f [401..<501] # chunksOf 200 []"
    by (subst chunksOf_step) (simp_all add: take_map drop_map del: upt_rec_numeral)
  show ?thesis by (simp only: a b c chunksOf_Nil)
qed

subsection \<open>The retry gate\<close>

text \<open>
  C3. Take a binding that the loop body processes (not in progress, recovery not failing)
  with pending uploads, the database up, a manager for the destination type and room in
  the worker's channel. The pass returns. The pending uploads are taken in ascending
  upload id, and each is admitted as long as its attempts are fewer than
  \<^verbatim>\<open>minRetryAttempts\<close> or the time since its first attempt is less than
  \<^verbatim>\<open>retryTimeWindow\<close>: the admitted uploads are the longest prefix of which this
  holds, one job is enqueued for each of them, in one batch, and nothing is enqueued when
  the first upload is rejected. When an upload is rejected, the in-progress bit of the pair
  is cleared; when all are admitted it stays set.
\<close>

theorem retry_gate_decides_pending_uploads:
  assumes free: "\<not> isDestInProgress w s"
    and rec: "inRecoveryMap s (dst_ID (Destination w)) \<noteq> None \<longrightarrow> \<not> crashRecover_err e w"
    and db: "dbUp s" and mgr: "managerNew_ok e (destType s)"
    and chan: "workerChannelMap s (workerIdentifier w) = Some queue" "length queue < 100"
    and pend: "pendingRows w s \<noteq> []"
  shows "\<exists>s'. processWarehouse cfg e w s = Inr s'
           \<and> (let us = map scanUpload (pendingRows w s);
                   adm = takeWhile (\<lambda>u. up_Attempts u < minRetryAttempts cfg
                                         \<or> now e - up_FirstAttemptAt u < retryTimeWindow cfg) us
               in inProgressMap s' (connectionString w) = (if adm = us then Some True else None)
                  \<and> workerChannelMap s'
                      = (if adm = [] then workerChannelMap s
                         else (workerChannelMap s)(workerIdentifier w \<mapsto> queue @
                           [map (\<lambda>u. \<lparr>job_upload = length (store s),
                                  job_stagingFiles = selectStagingFiles w (up_StartStagingFileID u)
                                     (up_EndStagingFileID u) (wh_staging_files s),
                                  job_warehouse = w\<rparr>) adm]))
                  \<and> wh_uploads s' = wh_uploads s)"
proof -
  have pr: "processWarehouse cfg e w s = uploadsPath cfg e w (afterRecovery w s)"
    using free rec mgr by (intro processWarehouse_proceeds) simp_all
  have g: "(\<lambda>u. canStartPendingUpload cfg e u w)
             = (\<lambda>u. up_Attempts u < minRetryAttempts cfg
                     \<or> now e - up_FirstAttemptAt u < retryTimeWindow cfg)"
    by (simp add: canStartPendingUpload_def fun_eq_iff)
  have "uploadsPath cfg e w (afterRecovery w s) = Inr
          (let us = map scanUpload (pendingRows w (afterRecovery w s));
              adm = takeWhile (\<lambda>u. canStartPendingUpload cfg e u w) us;
              st = pendingLoopState cfg e w (length (store (afterRecovery w s))) us
                     ((logCall (GetPendingUploadsCall w) (afterRecovery w s))
                        \<lparr>store := store (afterRecovery w s) @ [zeroUploadT]\<rparr>)
          in if adm = [] then st
             else logCall (EnqueueCall w (length adm))
                    (st\<lparr>workerChannelMap := (workerChannelMap (afterRecovery w s))(workerIdentifier w \<mapsto> queue @
                       [map (\<lambda>u. \<lparr>job_upload = length (store (afterRecovery w s)),
                              job_stagingFiles = selectStagingFiles w (up_StartStagingFileID u)
                                 (up_EndStagingFileID u) (wh_staging_files (afterRecovery w s)),
                              job_warehouse = w\<rparr>) adm])\<rparr>))"
    using db mgr pend chan by (intro uploadsPath_pending) simp_all
  with pr show ?thesis
    by (simp add: Let_def g takeWhile_all_iff)
qed

text \<open>
  An upload with five attempts under \<^verbatim>\<open>minRetryAttempts\<close> = 3 and a window of three
  hours (10800 s), at the instant 100000: with the first attempt ten minutes before
  (99400) it is admitted and enqueued with its staging files; with the first attempt four
  hours before (85600) it is rejected, nothing is enqueued and the in-progress bit is
  cleared.
\<close>

theorem retry_gate_decides_pending_uploads_witness:
  "(\<exists>s' job. processWarehouse exConfig (exEnv 100000) (exWarehouse ''POSTGRES'') (retryWorld 99400)
               = Inr s'
        \<and> map up_Attempts (map scanUpload (pendingRows (exWarehouse ''POSTGRES'') (retryWorld 99400))) = [5]
        \<and> inProgressMap s' ''source:S:destination:D'' = Some True
        \<and> workerChannelMap s' ''D_ns'' = Some [[job]]
        \<and> map sf_ID (job_stagingFiles job) = [1, 2, 3])
   \<and> (\<exists>s'. processWarehouse exConfig (exEnv 100000) (exWarehouse ''POSTGRES'') (retryWorld 85600)
               = Inr s'
        \<and> inProgressMap s' ''source:S:destination:D'' = None
        \<and> workerChannelMap s' ''D_ns'' = Some [])"
proof -
  let ?w = "exWarehouse ''POSTGRES''"
  let ?e = "exEnv 100000"
  have free: "\<not> isDestInProgress ?w (retryWorld t)" for t by (simp add: scen_defs key_defs)
  have rec: "inRecoveryMap (retryWorld t) (dst_ID (Destination ?w)) \<noteq> None \<longrightarrow> \<not> crashRecover_err ?e ?w" for t
    by (simp add: scen_defs)
  have db: "dbUp (retryWorld t)" for t by (simp add: scen_defs)
  have mgr: "managerNew_ok ?e (destType (retryWorld t))" for t by (simp add: scen_defs)
  have chan: "workerChannelMap (retryWorld t) (workerIdentifier ?w) = Some []" for t
    by (simp add: scen_defs key_defs)
  have room: "length ([] :: UploadJobT list list) < 100" by simp
  have us: "map scanUpload (pendingRows ?w (retryWorld t))
              = [zeroUploadT\<lparr>up_ID := 1, up_Namespace := ''ns'', up_SourceID := ''S'',
                   up_DestinationID := ''D'', up_DestinationType := ''POSTGRES'',
                   up_StartStagingFileID := 1, up_EndStagingFileID := 3,
                   up_Status := OtherState ''generating_load_file_failed'', up_Schema := ''{}'',
                   up_Error := [(''generating_load_file_failed'', 5)],
                   up_FirstAttemptAt := t, up_LastAttemptAt := t, up_Attempts := 5\<rparr>]" for t
    by (simp add: pendingRows_def scanUpload_def TimingFromJSONString_def attemptOf_def
        zeroUploadT_def scen_defs)
  have pend: "pendingRows ?w (retryWorld t) \<noteq> []" for t
    using us [of t] by auto
  have keys: "connectionString ?w = ''source:S:destination:D''" "workerIdentifier ?w = ''D_ns''"
    by (simp_all add: scen_defs key_defs)
  have files: "map sf_ID (selectStagingFiles ?w 1 3 (wh_staging_files (retryWorld t))) = [1, 2, 3]" for t
    by (simp add: selectStagingFiles_def ofPair_def scen_defs)
  from retry_gate_decides_pending_uploads [OF free [of 99400] rec [of 99400] db [of 99400] mgr [of 99400]
      chan [of 99400] room pend [of 99400], of exConfig]
  obtain s1 where a: "processWarehouse exConfig ?e ?w (retryWorld 99400) = Inr s1"
    and a2: "inProgressMap s1 ''source:S:destination:D'' = Some True"
      "workerChannelMap s1 ''D_ns''
         = Some [[\<lparr>job_upload = length (store (retryWorld 99400)),
                   job_stagingFiles = selectStagingFiles ?w 1 3 (wh_staging_files (retryWorld 99400)),
                   job_warehouse = ?w\<rparr>]]"
    by (auto simp: us keys Let_def exConfig_def exEnv_def zeroUploadT_def)
  from retry_gate_decides_pending_uploads [OF free [of 85600] rec [of 85600] db [of 85600] mgr [of 85600]
      chan [of 85600] room pend [of 85600], of exConfig]
  obtain s2 where b: "processWarehouse exConfig ?e ?w (retryWorld 85600) = Inr s2"
    and b2: "inProgressMap s2 ''source:S:destination:D'' = None"
      "workerChannelMap s2 ''D_ns'' = workerChannelMap (retryWorld 85600) ''D_ns''"
    by (auto simp: us keys Let_def exConfig_def exEnv_def zeroUploadT_def)
  have att: "map up_Attempts (map scanUpload (pendingRows ?w (retryWorld 99400))) = [5]"
    by (simp add: us)
  from b2 chan [of 85600] keys have b3: "workerChannelMap s2 ''D_ns'' = Some []" by simp
  show ?thesis
    using a a2 att files [of 99400] b b2(1) b3 by auto
qed

subsection \<open>The uploads of the jobs built from pending uploads\<close>

text \<open>
  C4 fails on the code. With two pending uploads (ids 1 and 2, over the staging files
  1, 2 and 3, 4), both admitted, the batch has two jobs with the right staging files, but
  the two jobs hold the same pointer, the address of the range variable, and what is read
  through it is the upload assigned last: the first job, which carries the staging files
  of upload 1, has upload 2 as its upload.
\<close>

theorem pending_jobs_share_the_last_upload:
  "\<exists>s' job1 job2.
      processWarehouse exConfig (exEnv 1000) (exWarehouse ''POSTGRES'') twoPendingWorld = Inr s'
      \<and> map up_ID (map scanUpload (pendingRows (exWarehouse ''POSTGRES'') twoPendingWorld)) = [1, 2]
      \<and> workerChannelMap s' ''D_ns'' = Some [[job1, job2]]
      \<and> map sf_ID (job_stagingFiles job1) = [1, 2]
      \<and> map sf_ID (job_stagingFiles job2) = [3, 4]
      \<and> job_upload job1 = job_upload job2
      \<and> map_option up_ID (deref s' (job_upload job1)) = Some 2
      \<and> map_option up_StartStagingFileID (deref s' (job_upload job1)) = Some 3
      \<and> map_option up_EndStagingFileID (deref s' (job_upload job1)) = Some 4"
  by (simp add: eval_defs scen_defs key_defs)

subsection \<open>The frequency gate\<close>

text \<open>
  C2. Take a pass over a binding that returns, for a binding that the loop body processes
  (not in progress, recovery not failing) and that has no pending upload; let the
  frequency be sixty times the minutes that \<^verbatim>\<open>ParseInt\<close> reads from the sync frequency
  of the warehouse, or \<^verbatim>\<open>uploadFreqInS\<close> when the sync frequency is empty, with no
  overflow in the product and in the difference of the instants. If the pair started an
  upload less than the frequency ago, the pass creates no upload, enqueues nothing, leaves
  \<^verbatim>\<open>lastExec\<close> as it is and clears the in-progress bit. Otherwise \<^verbatim>\<open>lastExec\<close> of the
  pair is the current time after the pass, and \<^verbatim>\<open>setLastExec\<close> is called right before
  the pending staging files are fetched: before it only \<^verbatim>\<open>CrashRecover\<close> and
  \<^verbatim>\<open>getPendingUploads\<close> are called, after the fetch only \<^verbatim>\<open>initUpload\<close> and the
  enqueueing.
\<close>

theorem fresh_uploads_wait_for_the_sync_frequency:
  assumes run: "processWarehouse cfg e w s = Inr s'"
    and free: "\<not> isDestInProgress w s"
    and rec: "inRecoveryMap s (dst_ID (Destination w)) \<noteq> None \<longrightarrow> \<not> crashRecover_err e w"
    and fresh: "pendingRows w s = []"
    and r1: "in_int64 (60 * fst (ParseInt (syncFrequency e w)))"
    and r2: "\<forall>t. lastExecMap s (connectionString w) = Some t \<longrightarrow> in_int64 (now e - t)"
  shows "if \<exists>t. lastExecMap s (connectionString w) = Some t
              \<and> now e - t < (if syncFrequency e w = [] then uploadFreqInS cfg
                              else 60 * fst (ParseInt (syncFrequency e w)))
         then wh_uploads s' = wh_uploads s \<and> workerChannelMap s' = workerChannelMap s
              \<and> lastExecMap s' = lastExecMap s \<and> inProgressMap s' (connectionString w) = None
         else lastExecMap s' = (lastExecMap s)(connectionString w \<mapsto> now e)
              \<and> (\<exists>pre post. calls s' = calls s @ pre
                                 @ SetLastExecCall w # GetPendingStagingFilesCall w # post
                    \<and> set pre \<subseteq> {CrashRecoverCall w, GetPendingUploadsCall w}
                    \<and> (\<forall>c \<in> set post. (\<exists>a b. c = InitUploadCall w a b)
                                          \<or> (\<exists>n. c = EnqueueCall w n)))"
proof -
  let ?s0 = "afterRecovery w s"
  let ?recent = "\<exists>t. lastExecMap s (connectionString w) = Some t
              \<and> now e - t < (if syncFrequency e w = [] then uploadFreqInS cfg
                              else 60 * fst (ParseInt (syncFrequency e w)))"
  have gate: "canStartUpload cfg e w s = (\<not> ?recent)"
    using canStartUpload_numeric [OF r1 r2] .
  have "inRecoveryMap s (dst_ID (Destination w)) \<noteq> None
          \<longrightarrow> managerNew_ok e (destType s) \<and> \<not> crashRecover_err e w"
    using rec processWarehouse_Inr_manager [OF run free] by blast
  from processWarehouse_proceeds [OF free this] run
  have up: "uploadsPath cfg e w ?s0 = Inr s'" by simp
  have pre0: "\<exists>pre. calls ?s0 @ [GetPendingUploadsCall w] = calls s @ pre
                \<and> set pre \<subseteq> {CrashRecoverCall w, GetPendingUploadsCall w}"
    by auto
  from up show ?thesis
  proof (cases rule: uploadsPath_InrE)
    case rejected
    with fresh show ?thesis by simp
  next
    case (retried queue)
    with fresh show ?thesis by simp
  next
    case gated
    from gated(3) gate have rc: "?recent" by simp
    have "wh_uploads s' = wh_uploads s \<and> workerChannelMap s' = workerChannelMap s
              \<and> lastExecMap s' = lastExecMap s \<and> inProgressMap s' (connectionString w) = None"
      using gated(4) by simp
    then show ?thesis unfolding if_P [OF rc] .
  next
    case nofiles
    from nofiles(3) gate have nr: "\<not> ?recent" by simp
    from pre0 obtain pre where p: "calls ?s0 @ [GetPendingUploadsCall w] = calls s @ pre"
      "set pre \<subseteq> {CrashRecoverCall w, GetPendingUploadsCall w}" by blast
    have "calls s' = calls s @ pre @ SetLastExecCall w # GetPendingStagingFilesCall w # []"
      using nofiles(5) p(1) by simp
    then have ord: "\<exists>pre post. calls s' = calls s @ pre
                                 @ SetLastExecCall w # GetPendingStagingFilesCall w # post
                    \<and> set pre \<subseteq> {CrashRecoverCall w, GetPendingUploadsCall w}
                    \<and> (\<forall>c \<in> set post. (\<exists>a b. c = InitUploadCall w a b)
                                          \<or> (\<exists>n. c = EnqueueCall w n))"
      using p(2) by (intro exI [of _ pre] exI [of _ "[]"]) simp
    have le: "lastExecMap s' = (lastExecMap s)(connectionString w \<mapsto> now e)"
      using nofiles(5) by simp
    show ?thesis unfolding if_not_P [OF nr] using le ord by (rule conjI)
  next
    case (fresh queue newJobs s2)
    from fresh(4) gate have nr: "\<not> ?recent" by simp
    from pre0 obtain pre where p: "calls ?s0 @ [GetPendingUploadsCall w] = calls s @ pre"
      "set pre \<subseteq> {CrashRecoverCall w, GetPendingUploadsCall w}" by blast
    from createUploads_frame [OF fresh(7)]
    obtain inits where fr: "lastExecMap s2 = (lastExecMap s)(connectionString w \<mapsto> now e)"
      and cs: "calls s2 = (calls ?s0 @ [GetPendingUploadsCall w])
                 @ [SetLastExecCall w, GetPendingStagingFilesCall w] @ inits"
      and ini: "\<forall>c \<in> set inits. \<exists>a b. c = InitUploadCall w a b"
      by auto
    have "calls s' = calls s @ pre @ SetLastExecCall w # GetPendingStagingFilesCall w
                       # (inits @ [EnqueueCall w (length newJobs)])"
      using fresh(10) cs p(1) by simp
    then have ord: "\<exists>pre post. calls s' = calls s @ pre
                                 @ SetLastExecCall w # GetPendingStagingFilesCall w # post
                    \<and> set pre \<subseteq> {CrashRecoverCall w, GetPendingUploadsCall w}
                    \<and> (\<forall>c \<in> set post. (\<exists>a b. c = InitUploadCall w a b)
                                          \<or> (\<exists>n. c = EnqueueCall w n))"
      using p(2) ini
      by (intro exI [of _ pre] exI [of _ "inits @ [EnqueueCall w (length newJobs)]"]) auto
    have le: "lastExecMap s' = (lastExecMap s)(connectionString w \<mapsto> now e)"
      using fresh(10) fr by simp
    show ?thesis unfolding if_not_P [OF nr] using le ord by (rule conjI)
  qed
qed

text \<open>
  At the instant 1000: with \<^verbatim>\<open>uploadFreqInS\<close> = 60, a start thirty seconds before and
  ten staging files, nothing is inserted and the in-progress bit is cleared; with a sync
  frequency of "1" minute and a start ninety seconds before, \<^verbatim>\<open>lastExec\<close> becomes 1000
  and the staging files are fetched after it is set.
\<close>

theorem fresh_uploads_wait_for_the_sync_frequency_witness:
  "(\<exists>s'. processWarehouse (exConfig\<lparr>uploadFreqInS := 60\<rparr>) (exEnv 1000) (exWarehouse ''POSTGRES'')
            (freqWorld 970 [1, 2, 3, 4, 5, 6, 7, 8, 9, 10]) = Inr s'
        \<and> wh_uploads s' = []
        \<and> workerChannelMap s' ''D_ns'' = Some []
        \<and> lastExecMap s' ''source:S:destination:D'' = Some 970
        \<and> inProgressMap s' ''source:S:destination:D'' = None)
   \<and> (\<exists>s' pre post. processWarehouse exConfig minuteEnv (exWarehouse ''POSTGRES'')
            (freqWorld 910 [1, 2, 3]) = Inr s'
        \<and> lastExecMap s' ''source:S:destination:D'' = Some 1000
        \<and> calls s' = pre @ SetLastExecCall (exWarehouse ''POSTGRES'')
                        # GetPendingStagingFilesCall (exWarehouse ''POSTGRES'') # post)"
proof -
  let ?w = "exWarehouse ''POSTGRES''"
  let ?c1 = "exConfig\<lparr>uploadFreqInS := 60\<rparr>"
  let ?s1 = "freqWorld 970 [1, 2, 3, 4, 5, 6, 7, 8, 9, 10]"
  let ?s2 = "freqWorld 910 [1, 2, 3]"
  have keys: "connectionString ?w = ''source:S:destination:D''" "workerIdentifier ?w = ''D_ns''"
    by (simp_all add: scen_defs2 key_defs)
  have free: "\<not> isDestInProgress ?w (freqWorld t ids)" for t ids
    by (simp add: scen_defs2 key_defs)
  have rec: "inRecoveryMap (freqWorld t ids) (dst_ID (Destination ?w)) \<noteq> None
               \<longrightarrow> \<not> crashRecover_err e ?w" for t ids e
    by (simp add: scen_defs2)
  have rec2: "inRecoveryMap (freqWorld t ids) (dst_ID (Destination ?w)) \<noteq> None
               \<longrightarrow> managerNew_ok e (destType (freqWorld t ids)) \<and> \<not> crashRecover_err e ?w" for t ids e
    by (simp add: scen_defs2)
  have fresh: "pendingRows ?w (freqWorld t ids) = []" for t ids
    by (simp add: pendingRows_def scen_defs2)
  have le: "lastExecMap (freqWorld t ids) (connectionString ?w) = Some t" for t ids
    by (simp add: scen_defs2 key_defs)
  have start: "wh_uploads (freqWorld t ids) = []" "workerChannelMap (freqWorld t ids) ''D_ns'' = Some []"
    "calls (freqWorld t ids) = []" "dbUp (freqWorld t ids)" for t ids
    by (simp_all add: scen_defs2)
  \<comment> \<open>thirty seconds after the last start, with a frequency of sixty seconds\<close>
  have r1a: "in_int64 (60 * fst (ParseInt (syncFrequency (exEnv 1000) ?w)))"
    by (simp add: exEnv_def parse_defs in_int64_def)
  have r2a: "\<forall>t. lastExecMap ?s1 (connectionString ?w) = Some t \<longrightarrow> in_int64 (now (exEnv 1000) - t)"
    by (simp add: le exEnv_def in_int64_def)
  have closed: "\<not> canStartUpload ?c1 (exEnv 1000) ?w (afterRecovery ?w ?s1)"
    by (simp add: canStartUpload_def uploadFrequencyExceeded_def le exEnv_def exConfig_def int64_def)
  have "\<exists>s'. processWarehouse ?c1 (exEnv 1000) ?w ?s1 = Inr s'"
    using closed start(4) [of 970] fresh [of 970]
    by (simp add: processWarehouse_proceeds [OF free rec2] uploadsPath_def getPendingUploads_def
        freshPath_def)
  then obtain s1' where run1: "processWarehouse ?c1 (exEnv 1000) ?w ?s1 = Inr s1'" ..
  have recent: "\<exists>t. lastExecMap ?s1 (connectionString ?w) = Some t
              \<and> now (exEnv 1000) - t < (if syncFrequency (exEnv 1000) ?w = [] then uploadFreqInS ?c1
                              else 60 * fst (ParseInt (syncFrequency (exEnv 1000) ?w)))"
    by (simp add: le exEnv_def exConfig_def)
  note c1 = fresh_uploads_wait_for_the_sync_frequency [OF run1 free rec fresh r1a r2a,
      unfolded if_P [OF recent]]
  have part1: "wh_uploads s1' = [] \<and> workerChannelMap s1' ''D_ns'' = Some []
        \<and> lastExecMap s1' ''source:S:destination:D'' = Some 970
        \<and> inProgressMap s1' ''source:S:destination:D'' = None"
    using c1 le [of 970] start keys by simp
  \<comment> \<open>ninety seconds after the last start, with a sync frequency of one minute\<close>
  have r1b: "in_int64 (60 * fst (ParseInt (syncFrequency minuteEnv ?w)))"
    by (simp add: minuteEnv_def exEnv_def parse_defs in_int64_def)
  have r2b: "\<forall>t. lastExecMap ?s2 (connectionString ?w) = Some t \<longrightarrow> in_int64 (now minuteEnv - t)"
    by (simp add: le minuteEnv_def exEnv_def in_int64_def)
  have "canStartUpload exConfig minuteEnv ?w ?s2"
    by (simp add: canStartUpload_def uploadFrequencyExceeded_def le minuteEnv_def exEnv_def
        parse_defs int64_def)
  then have "canStartUpload exConfig minuteEnv ?w (afterRecovery ?w ?s2)" by simp
  moreover have "selectPendingStagingFiles ?w ?s2 \<noteq> []"
    by (simp add: selectPendingStagingFiles_def lastStagingFileID_def terminalUploads_def
        ofPair_def scen_defs2)
  moreover have "managerNew_ok minuteEnv (destType ?s2)" by (simp add: scen_defs2)
  moreover have "0 < stagingFilesBatchSize exConfig" by (simp add: exConfig_def)
  moreover have "workerChannelMap ?s2 (workerIdentifier ?w) = Some []"
    using start(2) [of 910] keys by simp
  ultimately have "\<exists>s'. uploadsPath exConfig minuteEnv ?w (afterRecovery ?w ?s2) = Inr s'"
    using uploadsPath_fresh [of "afterRecovery ?w ?s2" minuteEnv ?w exConfig "[]"]
      start(4) [of 910] fresh [of 910] by auto
  then obtain s2' where run2: "processWarehouse exConfig minuteEnv ?w ?s2 = Inr s2'"
    using processWarehouse_proceeds [OF free [of 910 "[1, 2, 3]"] rec2 [of 910 "[1, 2, 3]" minuteEnv],
        of exConfig] by auto
  have notrecent: "\<not> (\<exists>t. lastExecMap ?s2 (connectionString ?w) = Some t
              \<and> now minuteEnv - t < (if syncFrequency minuteEnv ?w = [] then uploadFreqInS exConfig
                              else 60 * fst (ParseInt (syncFrequency minuteEnv ?w))))"
    by (simp add: le minuteEnv_def exEnv_def parse_defs)
  note c2 = fresh_uploads_wait_for_the_sync_frequency [OF run2 free rec fresh r1b r2b,
      unfolded if_not_P [OF notrecent]]
  from c2 obtain pre post where
    l2: "lastExecMap s2' = (lastExecMap ?s2)(connectionString ?w \<mapsto> now minuteEnv)"
    and o2: "calls s2' = calls ?s2 @ pre @ SetLastExecCall ?w # GetPendingStagingFilesCall ?w # post"
    by (elim exE conjE) (rule that, assumption+)
  have part2: "lastExecMap s2' ''source:S:destination:D'' = Some 1000"
    using l2 keys by (simp add: minuteEnv_def exEnv_def)
  have part3: "calls s2' = pre @ SetLastExecCall ?w # GetPendingStagingFilesCall ?w # post"
    using o2 start(3) [of 910] by simp
  show ?thesis
    using run1 part1 run2 part2 part3 by blast
qed

subsection \<open>New uploads in chunks\<close>

text \<open>
  C9. Take a binding that the loop body processes (not in progress, recovery not failing)
  with no pending upload, an open frequency gate, pending staging files, a positive
  \<^verbatim>\<open>stagingFilesBatchSize\<close>, the database up, a manager for the destination type and
  room in the worker's channel. The pass returns. The pending staging files, in the order
  of the query (ascending id), are cut into consecutive chunks of
  \<^verbatim>\<open>stagingFilesBatchSize\<close> files, the last one possibly shorter and none empty. One row
  in status Waiting is inserted per chunk, from the id of the first file of the chunk to
  the id of its last file; one job per chunk, with the chunk as its staging files and a
  pointer of its own to the upload of that row, is put into a single batch, which is
  appended to the channel of the pair's worker; the in-progress bit stays set.
\<close>

theorem pending_staging_files_are_cut_into_uploads:
  assumes free: "\<not> isDestInProgress w s"
    and rec: "inRecoveryMap s (dst_ID (Destination w)) \<noteq> None \<longrightarrow> \<not> crashRecover_err e w"
    and db: "dbUp s" and mgr: "managerNew_ok e (destType s)"
    and chan: "workerChannelMap s (workerIdentifier w) = Some queue" "length queue < 100"
    and fresh: "pendingRows w s = []" and can: "canStartUpload cfg e w s"
    and files: "selectPendingStagingFiles w s \<noteq> []"
    and bs: "0 < stagingFilesBatchSize cfg"
  shows "\<exists>s' batch rows.
           processWarehouse cfg e w s = Inr s'
           \<and> (let chunks = chunksOf (nat (stagingFilesBatchSize cfg)) (selectPendingStagingFiles w s)
              in concat chunks = selectPendingStagingFiles w s
                 \<and> (\<forall>c \<in> set chunks. c \<noteq> [] \<and> int (length c) \<le> stagingFilesBatchSize cfg)
                 \<and> (\<forall>c \<in> set (butlast chunks). int (length c) = stagingFilesBatchSize cfg)
                 \<and> workerChannelMap s' = (workerChannelMap s)(workerIdentifier w \<mapsto> queue @ [batch])
                 \<and> map job_stagingFiles batch = chunks
                 \<and> (\<forall>j \<in> set batch. job_warehouse j = w)
                 \<and> distinct (map job_upload batch)
                 \<and> wh_uploads s' = wh_uploads s @ rows
                 \<and> map (\<lambda>r. (upr_start_staging_file_id r, upr_end_staging_file_id r, upr_status r)) rows
                     = map (\<lambda>c. (sf_ID (hd c), sf_ID (last c), WaitingState)) chunks
                 \<and> map (\<lambda>j. map_option (\<lambda>u. (up_ID u, up_StartStagingFileID u, up_EndStagingFileID u,
                                               up_Status u)) (deref s' (job_upload j))) batch
                     = map (\<lambda>r. Some (upr_id r, upr_start_staging_file_id r,
                                      upr_end_staging_file_id r, upr_status r)) rows
                 \<and> inProgressMap s' (connectionString w) = Some True)"
proof -
  let ?s0 = "afterRecovery w s"
  let ?fs = "selectPendingStagingFiles w s"
  let ?n = "nat (stagingFilesBatchSize cfg)"
  have pr: "processWarehouse cfg e w s = uploadsPath cfg e w ?s0"
    using free rec mgr by (intro processWarehouse_proceeds) simp_all
  have "\<exists>s' batch ups rows.
           uploadsPath cfg e w ?s0 = Inr s'
           \<and> workerChannelMap s' = (workerChannelMap ?s0)(workerIdentifier w \<mapsto> queue @ [batch])
           \<and> wh_uploads s' = wh_uploads ?s0 @ rows
           \<and> store s' = store ?s0 @ ups
           \<and> inProgressMap s' = inProgressMap ?s0
           \<and> lastExecMap s' = (lastExecMap ?s0)(connectionString w \<mapsto> now e)
           \<and> map job_stagingFiles batch
               = chunksOf (nat (stagingFilesBatchSize cfg)) (selectPendingStagingFiles w ?s0)
           \<and> map job_upload batch = [length (store ?s0)..<length (store ?s0) + length ups]
           \<and> (\<forall>j \<in> set batch. job_warehouse j = w)
           \<and> map (\<lambda>r. (upr_start_staging_file_id r, upr_end_staging_file_id r, upr_status r)) rows
               = map (\<lambda>c. (sf_ID (hd c), sf_ID (last c), WaitingState))
                   (chunksOf (nat (stagingFilesBatchSize cfg)) (selectPendingStagingFiles w ?s0))
           \<and> map (\<lambda>u. (up_ID u, up_StartStagingFileID u, up_EndStagingFileID u, up_Status u)) ups
               = map (\<lambda>r. (upr_id r, upr_start_staging_file_id r, upr_end_staging_file_id r,
                           upr_status r)) rows"
    using db mgr fresh can files bs chan by (intro uploadsPath_fresh) simp_all
  then obtain s' batch ups rows where
    run: "uploadsPath cfg e w ?s0 = Inr s'"
    and wc: "workerChannelMap s' = (workerChannelMap s)(workerIdentifier w \<mapsto> queue @ [batch])"
    and wu: "wh_uploads s' = wh_uploads s @ rows"
    and st: "store s' = store s @ ups"
    and ip: "inProgressMap s' = (inProgressMap s)(connectionString w \<mapsto> True)"
    and js: "map job_stagingFiles batch = chunksOf ?n ?fs"
    and ju: "map job_upload batch = [length (store s)..<length (store s) + length ups]"
    and jw: "\<forall>j \<in> set batch. job_warehouse j = w"
    and rw: "map (\<lambda>r. (upr_start_staging_file_id r, upr_end_staging_file_id r, upr_status r)) rows
               = map (\<lambda>c. (sf_ID (hd c), sf_ID (last c), WaitingState)) (chunksOf ?n ?fs)"
    and ur: "map (\<lambda>u. (up_ID u, up_StartStagingFileID u, up_EndStagingFileID u, up_Status u)) ups
               = map (\<lambda>r. (upr_id r, upr_start_staging_file_id r, upr_end_staging_file_id r,
                           upr_status r)) rows"
    by auto
  have n0: "0 < ?n" using bs by simp
  have c1: "concat (chunksOf ?n ?fs) = ?fs" using concat_chunksOf [OF n0] .
  have c2: "\<forall>c \<in> set (chunksOf ?n ?fs). c \<noteq> [] \<and> int (length c) \<le> stagingFilesBatchSize cfg"
  proof
    fix c assume "c \<in> set (chunksOf ?n ?fs)"
    from chunksOf_nonempty [OF this] have "c \<noteq> []" "length c \<le> ?n" by simp_all
    then show "c \<noteq> [] \<and> int (length c) \<le> stagingFilesBatchSize cfg"
      using bs by (simp add: le_nat_iff)
  qed
  have c3: "\<forall>c \<in> set (butlast (chunksOf ?n ?fs)). int (length c) = stagingFilesBatchSize cfg"
  proof
    fix c assume "c \<in> set (butlast (chunksOf ?n ?fs))"
    from chunksOf_full [OF this] show "int (length c) = stagingFilesBatchSize cfg"
      using bs by simp
  qed
  have di: "distinct (map job_upload batch)" using ju by simp
  have "map (\<lambda>j. deref s' (job_upload j)) batch = map Some ups"
  proof -
    have "map (\<lambda>j. deref s' (job_upload j)) batch = map (deref s') (map job_upload batch)"
      by simp
    also have "\<dots> = map (\<lambda>a. if a < length (store s @ ups) then Some ((store s @ ups) ! a) else None)
                       [length (store s)..<length (store s) + length ups]"
      using ju st by (simp add: deref_def)
    also have "\<dots> = map Some ups" by (rule map_deref_new)
    finally show ?thesis .
  qed
  then have d0: "map (\<lambda>j. deref s' (job_upload j)) batch = map Some ups" .
  have "map (\<lambda>j. map_option (\<lambda>u. (up_ID u, up_StartStagingFileID u, up_EndStagingFileID u,
                                               up_Status u)) (deref s' (job_upload j))) batch
          = map (map_option (\<lambda>u. (up_ID u, up_StartStagingFileID u, up_EndStagingFileID u, up_Status u)))
              (map (\<lambda>j. deref s' (job_upload j)) batch)"
    by (simp add: comp_def)
  also have "\<dots> = map (map_option (\<lambda>u. (up_ID u, up_StartStagingFileID u, up_EndStagingFileID u, up_Status u)))
              (map Some ups)"
    by (simp only: d0)
  also have "\<dots> = map Some (map (\<lambda>u. (up_ID u, up_StartStagingFileID u, up_EndStagingFileID u, up_Status u)) ups)"
    by simp
  also have "\<dots> = map (\<lambda>r. Some (upr_id r, upr_start_staging_file_id r,
                                      upr_end_staging_file_id r, upr_status r)) rows"
    unfolding ur by simp
  finally have dr: "map (\<lambda>j. map_option (\<lambda>u. (up_ID u, up_StartStagingFileID u, up_EndStagingFileID u,
                                               up_Status u)) (deref s' (job_upload j))) batch
                     = map (\<lambda>r. Some (upr_id r, upr_start_staging_file_id r,
                                      upr_end_staging_file_id r, upr_status r)) rows" .
  have r0: "processWarehouse cfg e w s = Inr s'" using pr run by simp
  have ipk: "inProgressMap s' (connectionString w) = Some True" using ip by simp
  show ?thesis
    unfolding Let_def
    by (rule exI [of _ s'], rule exI [of _ batch], rule exI [of _ rows])
      (intro conjI r0 c1 c2 c3 wc js jw di wu rw dr ipk)
qed

text \<open>
  Five hundred staging files with \<^verbatim>\<open>stagingFilesBatchSize\<close> = 200: one batch of three
  jobs with 200, 200 and 100 files, and three uploads over 1 to 200, 201 to 400 and 401 to
  500.
\<close>

theorem pending_staging_files_are_cut_into_uploads_witness:
  "\<exists>s' batch.
      processWarehouse (exConfig\<lparr>stagingFilesBatchSize := 200\<rparr>) (exEnv 1000)
          (exWarehouse ''POSTGRES'') fiveHundredWorld = Inr s'
      \<and> length (wh_staging_files fiveHundredWorld) = 500
      \<and> workerChannelMap s' ''D_ns'' = Some [batch]
      \<and> map (\<lambda>j. length (job_stagingFiles j)) batch = [200, 200, 100]
      \<and> map (\<lambda>r. (upr_start_staging_file_id r, upr_end_staging_file_id r, upr_status r))
            (wh_uploads s')
          = [(1, 200, WaitingState), (201, 400, WaitingState), (401, 500, WaitingState)]"
proof -
  let ?w = "exWarehouse ''POSTGRES''"
  let ?cfg = "exConfig\<lparr>stagingFilesBatchSize := 200\<rparr>"
  let ?e = "exEnv 1000"
  let ?g = "\<lambda>i. scanStagingFile (exStagingFile (int i))"
  have free: "\<not> isDestInProgress ?w fiveHundredWorld" by (simp add: scen_defs2 key_defs del: upt_rec_numeral)
  have rec: "inRecoveryMap fiveHundredWorld (dst_ID (Destination ?w)) \<noteq> None
               \<longrightarrow> \<not> crashRecover_err ?e ?w" by (simp add: scen_defs2 del: upt_rec_numeral)
  have db: "dbUp fiveHundredWorld" by (simp add: scen_defs2 del: upt_rec_numeral)
  have mgr: "managerNew_ok ?e (destType fiveHundredWorld)" by (simp add: scen_defs2 del: upt_rec_numeral)
  have chan: "workerChannelMap fiveHundredWorld (workerIdentifier ?w) = Some []"
    by (simp add: scen_defs2 key_defs del: upt_rec_numeral)
  have room: "length ([] :: UploadJobT list list) < 100" by simp
  have fresh: "pendingRows ?w fiveHundredWorld = []"
    by (simp add: pendingRows_def scen_defs2 del: upt_rec_numeral)
  have can: "canStartUpload ?cfg ?e ?w fiveHundredWorld"
    by (simp add: canStartUpload_def uploadFrequencyExceeded_def scen_defs2 key_defs del: upt_rec_numeral)
  have files: "selectPendingStagingFiles ?w fiveHundredWorld \<noteq> []"
    by (simp add: select_fiveHundred del: upt_rec_numeral)
  have bs: "0 < stagingFilesBatchSize ?cfg" by simp
  have n: "nat (stagingFilesBatchSize ?cfg) = 200" by simp
  have chunks: "chunksOf (nat (stagingFilesBatchSize ?cfg)) (selectPendingStagingFiles ?w fiveHundredWorld)
                  = [map ?g [1..<201], map ?g [201..<401], map ?g [401..<501]]"
    unfolding n select_fiveHundred by (rule chunks_fiveHundred)
  have ranges: "map (\<lambda>c. (sf_ID (hd c), sf_ID (last c), WaitingState))
                  [map ?g [1..<201], map ?g [201..<401], map ?g [401..<501]]
                = [(1, 200, WaitingState), (201, 400, WaitingState), (401, 500, WaitingState)]"
    by (simp add: hd_map last_map scanStagingFile_def exStagingFile_def del: upt_rec_numeral)
  have keys: "workerIdentifier ?w = ''D_ns''" by (simp add: scen_defs2 key_defs del: upt_rec_numeral)
  have none: "wh_uploads fiveHundredWorld = []" by (simp add: scen_defs2 del: upt_rec_numeral)
  have len: "length (wh_staging_files fiveHundredWorld) = 500"
    by (simp add: scen_defs2 del: upt_rec_numeral)
  note cut = pending_staging_files_are_cut_into_uploads
    [OF free rec db mgr chan room fresh can files bs, unfolded Let_def chunks]
  from cut obtain s' batch rows where
    run: "processWarehouse ?cfg ?e ?w fiveHundredWorld = Inr s'"
    and wc: "workerChannelMap s' = (workerChannelMap fiveHundredWorld)(workerIdentifier ?w \<mapsto> [] @ [batch])"
    and js: "map job_stagingFiles batch = [map ?g [1..<201], map ?g [201..<401], map ?g [401..<501]]"
    and wu: "wh_uploads s' = wh_uploads fiveHundredWorld @ rows"
    and rw: "map (\<lambda>r. (upr_start_staging_file_id r, upr_end_staging_file_id r, upr_status r)) rows
               = map (\<lambda>c. (sf_ID (hd c), sf_ID (last c), WaitingState))
                   [map ?g [1..<201], map ?g [201..<401], map ?g [401..<501]]"
    by (elim exE conjE) (rule that, assumption+)
  have "map (\<lambda>j. length (job_stagingFiles j)) batch = map length (map job_stagingFiles batch)"
    by (simp add: comp_def)
  also have "\<dots> = [200, 200, 100]" unfolding js by (simp del: upt_rec_numeral)
  finally have l: "map (\<lambda>j. length (job_stagingFiles j)) batch = [200, 200, 100]" .
  have w2: "workerChannelMap s' ''D_ns'' = Some [batch]" using wc keys by simp
  have r2: "map (\<lambda>r. (upr_start_staging_file_id r, upr_end_staging_file_id r, upr_status r))
              (wh_uploads s')
            = [(1, 200, WaitingState), (201, 400, WaitingState), (401, 500, WaitingState)]"
    using wu rw ranges none by simp
  show ?thesis
    by (rule exI [of _ s'], rule exI [of _ batch]) (intro conjI run len w2 l r2)
qed

end
